theory Spec2Isabelle
  imports Main "HOL-Library.AList"
begin

section \<open>JavaScript primitives used by the scheduler\<close>

text \<open>
  The scheduler (class \<open>VerificationScheduler\<close>) is embedded with explicit state passing.
  A thrown JavaScript value is either \<open>undefined\<close> or an \<open>Error\<close> object with its
  message; a call that may throw returns \<open>thrown + 'a\<close>.
\<close>

datatype thrown = Undefined | Error string

text \<open>\<open>Array.prototype.slice(start)\<close> and \<open>slice(start, end)\<close>: a negative index counts
  from the end, and every index is clamped to the array.\<close>

definition slice_from :: "'a list \<Rightarrow> int \<Rightarrow> 'a list" where
  "slice_from xs start =
     (let n = int (length xs);
          k = (if start < 0 then max (n + start) 0 else min start n)
      in drop (nat k) xs)"

definition slice :: "'a list \<Rightarrow> int \<Rightarrow> int \<Rightarrow> 'a list" where
  "slice xs start fin =
     (let n = int (length xs);
          k = (if start < 0 then max (n + start) 0 else min start n);
          f = (if fin < 0 then max (n + fin) 0 else min fin n)
      in take (nat (f - k)) (drop (nat k) xs))"

text \<open>\<open>String.prototype.includes\<close>: the argument occurs as a contiguous substring.\<close>

fun str_includes :: "string \<Rightarrow> string \<Rightarrow> bool" where
  "str_includes [] sub = (sub = [])"
| "str_includes (c # cs) sub = (take (length sub) (c # cs) = sub \<or> str_includes cs sub)"

text \<open>\<open>String.prototype.trim\<close> on the ASCII white space and line terminators.\<close>

definition is_space :: "char \<Rightarrow> bool" where
  "is_space c = (c \<in> set [CHR '' '', CHR 0x09, CHR 0x0A, CHR 0x0B, CHR 0x0C, CHR 0x0D])"

definition trim :: "string \<Rightarrow> string" where
  "trim s = rev (dropWhile is_space (rev (dropWhile is_space s)))"

text \<open>Decimal text of a number inside a template literal, and \<open>toString(36)\<close>.\<close>

definition digit_char :: "nat \<Rightarrow> char" where
  "digit_char d = (''0123456789abcdefghijklmnopqrstuvwxyz'') ! d"

fun radix_string :: "nat \<Rightarrow> nat \<Rightarrow> string" where
  "radix_string b n =
     (if b < 2 \<or> n < b then [digit_char n]
      else radix_string b (n div b) @ [digit_char (n mod b)])"

definition show_nat :: "nat \<Rightarrow> string" where
  "show_nat n = radix_string 10 n"

definition show_int :: "int \<Rightarrow> string" where
  "show_int i = (if i < 0 then CHR ''-'' # radix_string 10 (nat (- i)) else radix_string 10 (nat i))"

section \<open>Records of the scheduler\<close>

record config =
  cronSchedule :: string
  concurrency :: int
  retryAttempts :: int
  retryDelayMs :: int
  delayBetweenStudentsMs :: int
  delayBetweenDocsMs :: int
  skipAlreadyVerified :: bool
  autoStart :: bool

record log_entry =
  timestamp :: nat
  level :: string
  message :: string
  data :: "(string \<times> string) list option"


text \<open>A work item as the Atlas API lists it. \<open>file_url\<close> and \<open>filename\<close> may be
  missing (\<open>None\<close>) or empty.\<close>

record doc =
  document_type_id :: string
  document_type_name :: string
  document_label :: string
  document_description :: string
  document_is_required :: string
  file_url :: "string option"
  filename :: "string option"
  verify_status :: string
  doc_upload_id :: string

text \<open>The outcome object of the verification backend. \<open>confidence\<close> is carried in whole
  percent; the scheduler only copies it and prints it as a percentage.\<close>

record verification =
  status :: string
  confidence :: nat
  remark :: string
  issues :: "string list"
  extracted_data :: "(string \<times> string) list"

record download =
  buffer :: string
  contentType :: string

record descriptor =
  filename :: "string option"
  contentType :: string
  document_label :: string
  document_type_name :: string
  document_description :: string

record all_doc_entry =
  document_type_id :: string
  document_type_name :: string
  document_label :: string
  document_description :: string
  is_required :: bool
  is_uploaded :: bool
  filename :: "string option"
  file_url :: "string option"
  verify_status :: string
  doc_upload_id :: string
  ai_status :: "string option"
  confidence :: "nat option"
  remark :: "string option"
  issues :: "string list option"
  extracted_data :: "(string \<times> string) list option"

record doc_result =
  document_type_id :: string
  document_label :: string
  document_type_name :: string
  filename :: "string option"
  file_url :: "string option"
  ai_status :: string
  confidence :: nat
  remark :: string
  issues :: "string list"
  extracted_data :: "(string \<times> string) list"

record status_update =
  document_type_id :: string
  doc_ai_status :: string
  doc_ai_remark :: string

record student_result =
  applnID :: string
  studentName :: string
  status :: string
  startTime :: nat
  endTime :: "nat option"
  totalDocs :: nat
  uploaded :: nat
  approved :: nat
  rejected :: nat
  errors :: nat
  skipped :: nat
  allDocuments :: "all_doc_entry list"
  documents :: "doc_result list"

text \<open>A run. \<open>students\<close> is \<open>None\<close> where the source stores \<open>undefined\<close> (the summary
  kept in the history).\<close>

record run =
  run_id :: string
  startTime :: nat
  endTime :: "nat option"
  status :: string
  totalStudents :: nat
  processed :: nat
  completed :: nat
  skipped :: nat
  errors :: nat
  totalDocsVerified :: nat
  totalApproved :: nat
  totalRejected :: nat
  students :: "student_result list option"

record student =
  applnID :: "string option"
  student_id :: "string option"
  application_id :: "string option"
  first_name :: "string option"
  last_name :: "string option"
  name :: "string option"

record doc_list_response =
  status :: int
  document_status :: "doc list option"

datatype student_list_data = Many "student list" | One student

text \<open>The scheduler object. \<open>studentResults\<close> is the \<open>Map\<close> keyed by application id,
  in insertion order; \<open>cronJob\<close> tells whether a cron task is installed.\<close>

record scheduler =
  cronJob :: bool
  isRunning :: bool
  shouldStop :: bool
  config :: config
  currentRun :: "run option"
  runs :: "run list"
  logs :: "log_entry list"
  maxLogs :: int
  maxRuns :: int
  studentResults :: "(string \<times> student_result) list"

text \<open>
  Everything outside the scheduler object is the world \<open>'w\<close>: the clock, the timers, the
  Atlas API, the verification backend and the administrator. An external call takes the
  world and returns its result with the new world. \<open>stopArrives\<close> tells whether the
  administrator asked for a stop while the scheduler was suspended in an \<open>await\<close>.
\<close>

record 'w env =
  now :: "'w \<Rightarrow> nat"
  sleep :: "int \<Rightarrow> 'w \<Rightarrow> 'w"
  cronStop :: "'w \<Rightarrow> 'w"
  stopArrives :: "'w \<Rightarrow> bool \<times> 'w"
  getStudentList :: "'w \<Rightarrow> (thrown + student_list_data option) \<times> 'w"
  getDocumentList :: "string \<Rightarrow> 'w \<Rightarrow> (thrown + doc_list_response) \<times> 'w"
  updateDocumentStatus :: "string \<Rightarrow> status_update list \<Rightarrow> 'w \<Rightarrow> (thrown + unit) \<times> 'w"
  downloadDocument :: "string \<Rightarrow> 'w \<Rightarrow> (thrown + download) \<times> 'w"
  verify :: "string \<Rightarrow> descriptor \<Rightarrow> 'w \<Rightarrow> (thrown + verification) \<times> 'w"

section \<open>Logging\<close>

text \<open>\<open>log(level, message, data)\<close>: append the entry, then keep the last \<open>maxLogs\<close>
  entries. The console output is not part of the state.\<close>

definition log ::
  "'w env \<Rightarrow> string \<Rightarrow> string \<Rightarrow> (string \<times> string) list option \<Rightarrow>
   'w \<times> scheduler \<Rightarrow> 'w \<times> scheduler" where
  "log env lvl msg dat s =
     (case s of (w, st) \<Rightarrow>
        let entry = \<lparr>timestamp = now env w, level = lvl, message = msg, data = dat\<rparr>;
            pushed = logs st @ [entry]
        in (w, st\<lparr>logs := (if int (length pushed) > maxLogs st
                              then slice_from pushed (- maxLogs st) else pushed)\<rparr>))"

section \<open>Retry logic\<close>

text \<open>What reading \<open>err.message\<close> throws when \<open>err\<close> is \<open>undefined\<close>.\<close>

definition typeError :: thrown where
  "typeError = Error ''Cannot read properties of undefined (reading 'message')''"

definition nonRetryable :: "string \<Rightarrow> bool" where
  "nonRetryable errMsg =
     (str_includes errMsg ''429'' \<or> str_includes errMsg ''quota'' \<or>
      str_includes errMsg ''401'' \<or> str_includes errMsg ''403'')"

text \<open>The \<open>for\<close> loop of \<open>withRetry\<close>, from \<open>attempt\<close> on; \<open>lastError\<close> is the
  variable of that name.\<close>

function withRetry_loop ::
  "'w env \<Rightarrow> ('w \<Rightarrow> (thrown + 'a) \<times> 'w) \<Rightarrow> string \<Rightarrow> int \<Rightarrow> thrown \<Rightarrow>
   'w \<times> scheduler \<Rightarrow> (thrown + 'a) \<times> 'w \<times> scheduler" where
  "withRetry_loop env fn label attempt lastError (w, st) =
     (if attempt \<le> retryAttempts (config st) then
        (case fn w of
           (Inr v, w1) \<Rightarrow> (Inr v, (w1, st))
         | (Inl Undefined, w1) \<Rightarrow> (Inl typeError, (w1, st))
         | (Inl (Error errMsg), w1) \<Rightarrow>
             if nonRetryable errMsg then
               (Inl (Error errMsg),
                log env ''error'' (label @ '' failed with non-retryable error: '' @ errMsg) None
                  (w1, st))
             else if attempt < retryAttempts (config st) then
               (let delay = retryDelayMs (config st) * 2 ^ nat (attempt - 1) in
                case log env ''warn''
                       (label @ '' failed (attempt '' @ show_int attempt @ ''/'' @
                        show_int (retryAttempts (config st)) @ ''), retrying in '' @
                        show_int delay @ ''ms: '' @ errMsg) None (w1, st) of
                  (w2, st2) \<Rightarrow>
                    withRetry_loop env fn label (attempt + 1) (Error errMsg)
                      (sleep env delay w2, st2))
             else withRetry_loop env fn label (attempt + 1) (Error errMsg) (w1, st))
      else (Inl lastError, (w, st)))"
  by pat_completeness auto
termination
  by (relation "measure (\<lambda>(env, fn, label, attempt, lastError, s).
                  nat (retryAttempts (config (snd s)) + 1 - attempt))")
     (auto simp: log_def Let_def)

declare withRetry_loop.simps [simp del]

definition withRetry ::
  "'w env \<Rightarrow> ('w \<Rightarrow> (thrown + 'a) \<times> 'w) \<Rightarrow> string \<Rightarrow>
   'w \<times> scheduler \<Rightarrow> (thrown + 'a) \<times> 'w \<times> scheduler" where
  "withRetry env fn label s = withRetry_loop env fn label 1 Undefined s"


section \<open>Single document verification\<close>

text \<open>Truthiness of a possibly missing string: missing and empty strings are falsy.\<close>

definition truthy :: "string option \<Rightarrow> bool" where
  "truthy x = (case x of None \<Rightarrow> False | Some v \<Rightarrow> v \<noteq> [])"

text \<open>\<open>doc.file_url && doc.file_url.trim()\<close> as a condition; on strings the filter's
  \<open>doc.file_url && doc.file_url.trim() !== ''\<close> is the same test.\<close>

definition has_file_url :: "doc \<Rightarrow> bool" where
  "has_file_url d = (truthy (doc.file_url d) \<and> truthy (map_option trim (doc.file_url d)))"

definition notUploaded :: verification where
  "notUploaded =
     \<lparr>verification.status = ''skip'', verification.confidence = 0,
      verification.remark = ''Document not uploaded - skipped'',
      verification.issues = [''No file uploaded''], verification.extracted_data = []\<rparr>"

text \<open>The operation \<open>verifyDocument\<close> hands to \<open>withRetry\<close>: download, then verify.\<close>

definition downloadAndVerify :: "'w env \<Rightarrow> doc \<Rightarrow> string \<Rightarrow> 'w \<Rightarrow> (thrown + verification) \<times> 'w" where
  "downloadAndVerify env d url w =
     (case downloadDocument env url w of
        (Inl err, w1) \<Rightarrow> (Inl err, w1)
      | (Inr dl, w1) \<Rightarrow>
          verify env (buffer dl)
            \<lparr>descriptor.filename = doc.filename d, descriptor.contentType = download.contentType dl,
             descriptor.document_label = doc.document_label d,
             descriptor.document_type_name = doc.document_type_name d,
             descriptor.document_description = doc.document_description d\<rparr> w1)"

definition verifyDocument ::
  "'w env \<Rightarrow> doc \<Rightarrow> 'w \<times> scheduler \<Rightarrow> (thrown + verification) \<times> 'w \<times> scheduler" where
  "verifyDocument env d s =
     (case doc.file_url d of
        None \<Rightarrow>
          (Inr notUploaded,
           log env ''info'' (''Skipping '' @ doc.document_label d @ '': No file uploaded'') None s)
      | Some url \<Rightarrow>
          if \<not> has_file_url d then
            (Inr notUploaded,
             log env ''info'' (''Skipping '' @ doc.document_label d @ '': No file uploaded'') None s)
          else withRetry env (downloadAndVerify env d url) (''Verify '' @ doc.document_label d) s)"

section \<open>Single student processing\<close>

text \<open>A stop request that arrived while the scheduler was suspended in an \<open>await\<close> has run
  \<open>stopScheduler\<close> by the time the scheduler resumes.\<close>

definition stopScheduler :: "'w env \<Rightarrow> 'w \<times> scheduler \<Rightarrow> 'w \<times> scheduler" where
  "stopScheduler env s =
     (case (case s of (w, st) \<Rightarrow>
              if cronJob st
              then log env ''info'' ''Scheduler stopped'' None (cronStop env w, st\<lparr>cronJob := False\<rparr>)
              else (w, st)) of
        (w1, st1) \<Rightarrow>
          if isRunning st1
          then log env ''info'' ''Stop signal sent to running batch'' None
                 (w1, st1\<lparr>shouldStop := True\<rparr>)
          else (w1, st1))"

definition resume :: "'w env \<Rightarrow> 'w \<times> scheduler \<Rightarrow> 'w \<times> scheduler" where
  "resume env s =
     (case s of (w, st) \<Rightarrow>
        (case stopArrives env w of
           (True, w1) \<Rightarrow> stopScheduler env (w1, st)
         | (False, w1) \<Rightarrow> (w1, st)))"

text \<open>\<open>chunkArray\<close>: the loop \<open>for (i = 0; i < arr.length; i += size)\<close>. It does not
  return when the size \<open>sz\<close> is not positive and the array is not empty.\<close>

partial_function (option) chunkArray_loop ::
  "'a list \<Rightarrow> int \<Rightarrow> int \<Rightarrow> 'a list list \<Rightarrow> 'a list list option" where
  "chunkArray_loop arr sz i chunks =
     (if i < int (length arr)
      then chunkArray_loop arr sz (i + sz) (chunks @ [slice arr i (i + sz)])
      else Some chunks)"

declare chunkArray_loop.simps [code]

definition chunkArray :: "'a list \<Rightarrow> int \<Rightarrow> 'a list list option" where
  "chunkArray arr sz = chunkArray_loop arr sz 0 []"

text \<open>\<open>Promise.allSettled(chunk.map(doc => this.verifyDocument(doc)))\<close>: one result per
  document, in the order of the chunk. The tasks of a chunk are run one after the other.\<close>

fun allSettled ::
  "'w env \<Rightarrow> doc list \<Rightarrow> 'w \<times> scheduler \<Rightarrow> (thrown + verification) list \<times> 'w \<times> scheduler" where
  "allSettled env [] s = ([], s)"
| "allSettled env (d # ds) s =
     (case verifyDocument env d s of
        (r, s1) \<Rightarrow> (case allSettled env ds s1 of (rs, s2) \<Rightarrow> (r # rs, s2)))"

text \<open>\<open>allDocuments.find(...)\<close> followed by assignments to the entry found.\<close>

fun update_first :: "('a \<Rightarrow> bool) \<Rightarrow> ('a \<Rightarrow> 'a) \<Rightarrow> 'a list \<Rightarrow> 'a list" where
  "update_first p f [] = []"
| "update_first p f (x # xs) = (if p x then f x # xs else x # update_first p f xs)"

definition or_null :: "string option \<Rightarrow> string option" where
  "or_null x = (if truthy x then x else None)"

definition allDocEntry :: "doc \<Rightarrow> all_doc_entry" where
  "allDocEntry d =
     \<lparr>all_doc_entry.document_type_id = doc.document_type_id d,
      all_doc_entry.document_type_name = doc.document_type_name d,
      all_doc_entry.document_label = doc.document_label d,
      all_doc_entry.document_description = doc.document_description d,
      is_required = (document_is_required d = ''1''),
      is_uploaded = has_file_url d,
      all_doc_entry.filename = or_null (doc.filename d),
      all_doc_entry.file_url = or_null (doc.file_url d),
      all_doc_entry.verify_status = doc.verify_status d,
      all_doc_entry.doc_upload_id = doc.doc_upload_id d,
      all_doc_entry.ai_status = None, all_doc_entry.confidence = None,
      all_doc_entry.remark = None, all_doc_entry.issues = None,
      all_doc_entry.extracted_data = None\<rparr>"

definition docResult ::
  "doc \<Rightarrow> string \<Rightarrow> nat \<Rightarrow> string \<Rightarrow> string list \<Rightarrow> (string \<times> string) list \<Rightarrow> doc_result" where
  "docResult d st c r i x =
     \<lparr>doc_result.document_type_id = doc.document_type_id d,
      doc_result.document_label = doc.document_label d,
      doc_result.document_type_name = doc.document_type_name d,
      doc_result.filename = doc.filename d, doc_result.file_url = doc.file_url d,
      doc_result.ai_status = st, doc_result.confidence = c, doc_result.remark = r,
      doc_result.issues = i, doc_result.extracted_data = x\<rparr>"

definition sameType :: "doc \<Rightarrow> all_doc_entry \<Rightarrow> bool" where
  "sameType d e = (all_doc_entry.document_type_id e = doc.document_type_id d)"

text \<open>The body of the inner \<open>for\<close> loop: merge the settled result of one document into the
  student result and the list of status updates.\<close>

definition mergeResult ::
  "'w env \<Rightarrow> string \<Rightarrow> doc \<Rightarrow> thrown + verification \<Rightarrow>
   (student_result \<times> status_update list) \<times> 'w \<times> scheduler \<Rightarrow>
   (student_result \<times> status_update list) \<times> 'w \<times> scheduler" where
  "mergeResult env appln d result acc =
     (case acc of ((sr, statusUpdates), s) \<Rightarrow>
        (case result of
           Inr v \<Rightarrow>
             if verification.status v = ''skip'' then
               ((sr\<lparr>student_result.skipped := student_result.skipped sr + 1,
                     documents := documents sr @
                       [docResult d ''skipped'' 0 (verification.remark v) (verification.issues v) []],
                     allDocuments := update_first (sameType d)
                       (\<lambda>e. e\<lparr>all_doc_entry.ai_status := Some ''skipped'',
                                all_doc_entry.remark := Some (verification.remark v)\<rparr>)
                       (allDocuments sr)\<rparr>,
                 statusUpdates),
                log env ''info''
                  (appln @ '' - '' @ doc.document_label d @ '': Skipped (not uploaded)'') None s)
             else
               (let aiStatus = (if verification.status v = ''approve'' then ''Verified'' else ''reject'');
                    sr1 = sr\<lparr>documents := documents sr @
                            [docResult d aiStatus (verification.confidence v) (verification.remark v)
                               (verification.issues v) (verification.extracted_data v)],
                          allDocuments := update_first (sameType d)
                            (\<lambda>e. e\<lparr>all_doc_entry.ai_status := Some aiStatus,
                                     all_doc_entry.confidence := Some (verification.confidence v),
                                     all_doc_entry.remark := Some (verification.remark v),
                                     all_doc_entry.issues := Some (verification.issues v),
                                     all_doc_entry.extracted_data := Some (verification.extracted_data v)\<rparr>)
                            (allDocuments sr)\<rparr>
                in ((if aiStatus = ''Verified''
                     then sr1\<lparr>approved := approved sr1 + 1\<rparr>
                     else sr1\<lparr>rejected := rejected sr1 + 1\<rparr>,
                     statusUpdates @
                       [\<lparr>status_update.document_type_id = doc.document_type_id d,
                         doc_ai_status = aiStatus, doc_ai_remark = verification.remark v\<rparr>]),
                    log env ''info''
                      (appln @ '' - '' @ doc.document_label d @ '': '' @ aiStatus @ '' ('' @
                       show_nat (verification.confidence v) @ ''%)'')
                      (Some [(''remark'', verification.remark v)]) s))
         | Inl reason \<Rightarrow>
             (let errMsg = (case reason of Undefined \<Rightarrow> ''Unknown error''
                            | Error m \<Rightarrow> if m = [] then ''Unknown error'' else m)
              in ((sr\<lparr>student_result.errors := student_result.errors sr + 1,
                      documents := documents sr @
                        [docResult d ''error'' 0 errMsg [''Verification process error''] []],
                      allDocuments := update_first (sameType d)
                        (\<lambda>e. e\<lparr>all_doc_entry.ai_status := Some ''error'',
                                 all_doc_entry.confidence := Some 0,
                                 all_doc_entry.remark := Some errMsg\<rparr>)
                        (allDocuments sr)\<rparr>,
                   statusUpdates @
                     [\<lparr>status_update.document_type_id = doc.document_type_id d,
                       doc_ai_status = ''error'',
                       doc_ai_remark = ''Verification failed: '' @ errMsg\<rparr>]),
                  log env ''error'' (appln @ '' - '' @ doc.document_label d @ '': Error'')
                    (Some [(''error'', errMsg)]) s))))"

text \<open>The inner loop over \<open>i\<close>: \<open>chunk[i]\<close> with \<open>results[i]\<close>.\<close>

definition mergeChunk ::
  "'w env \<Rightarrow> string \<Rightarrow> doc list \<Rightarrow> (thrown + verification) list \<Rightarrow>
   (student_result \<times> status_update list) \<times> 'w \<times> scheduler \<Rightarrow>
   (student_result \<times> status_update list) \<times> 'w \<times> scheduler" where
  "mergeChunk env appln chunk results acc =
     foldl (\<lambda>a (d, r). mergeResult env appln d r a) acc (zip chunk results)"

text \<open>The loop \<open>for (const chunk of chunks)\<close>. Each chunk is a distinct array, so
  \<open>chunks.indexOf(chunk) < chunks.length - 1\<close> holds exactly when chunks remain.\<close>

fun processChunks ::
  "'w env \<Rightarrow> string \<Rightarrow> doc list list \<Rightarrow>
   (student_result \<times> status_update list) \<times> 'w \<times> scheduler \<Rightarrow>
   (student_result \<times> status_update list) \<times> 'w \<times> scheduler" where
  "processChunks env appln [] acc = acc"
| "processChunks env appln (chunk # rest) acc =
     (case acc of (res, s) \<Rightarrow>
        if shouldStop (snd s) then
          (res, log env ''info'' (''Stopping mid-student '' @ appln) None s)
        else
          (case allSettled env chunk s of
             (results, s1) \<Rightarrow>
               (case mergeChunk env appln chunk results (res, resume env s1) of
                  (res2, s2) \<Rightarrow>
                    processChunks env appln rest
                      (res2,
                       if rest \<noteq> []
                       then resume env
                              (sleep env (delayBetweenDocsMs (config (snd s2))) (fst s2), snd s2)
                       else s2))))"


text \<open>How the \<open>try\<close> block of \<open>processStudent\<close> ends: by a \<open>return\<close> inside it, by
  reaching its end, or by an exception; each with the student result as mutated so far.\<close>

datatype tried = Returned student_result | Finished student_result | Threw thrown student_result

definition setStudentResult :: "string \<Rightarrow> student_result \<Rightarrow> 'w \<times> scheduler \<Rightarrow> 'w \<times> scheduler" where
  "setStudentResult appln sr s =
     (fst s, (snd s)\<lparr>studentResults := AList.update appln sr (studentResults (snd s))\<rparr>)"

text \<open>The early return when no document list came back.\<close>

definition noDocumentList ::
  "'w env \<Rightarrow> string \<Rightarrow> student_result \<Rightarrow> 'w \<times> scheduler \<Rightarrow> tried \<times> 'w \<times> scheduler" where
  "noDocumentList env appln sr s =
     (let sr1 = sr\<lparr>student_result.status := ''skipped'',
                   student_result.endTime := Some (now env (fst s))\<rparr>
      in (Returned sr1,
          setStudentResult appln sr1
            (log env ''warn'' (''Student '' @ appln @ '': No document list returned'') None s)))"

text \<open>Posting the status updates back, inside its own \<open>try\<close>; the result is what the
  \<open>catch\<close> block itself throws, if anything.\<close>

definition postStatusUpdates ::
  "'w env \<Rightarrow> string \<Rightarrow> status_update list \<Rightarrow> 'w \<times> scheduler \<Rightarrow> thrown option \<times> 'w \<times> scheduler" where
  "postStatusUpdates env appln statusUpdates s =
     (if length statusUpdates > 0 \<and> \<not> shouldStop (snd s) then
        (case withRetry env (updateDocumentStatus env appln statusUpdates)
                (''Update status for '' @ appln) s of
           (Inr u, s1) \<Rightarrow>
             (None,
              log env ''info''
                (appln @ '': Status updated ('' @ show_nat (length statusUpdates) @ '' documents)'')
                None (resume env s1))
         | (Inl Undefined, s1) \<Rightarrow> (Some typeError, resume env s1)
         | (Inl (Error m), s1) \<Rightarrow>
             (None,
              log env ''error'' (appln @ '': Failed to update status'') (Some [(''error'', m)])
                (resume env s1)))
      else (None, s))"

text \<open>The \<open>try\<close> block from \<open>const allDocs = ...\<close> on. \<open>None\<close>: the call does not return.\<close>

definition processDocuments ::
  "'w env \<Rightarrow> string \<Rightarrow> student_result \<Rightarrow> doc list \<Rightarrow> 'w \<times> scheduler \<Rightarrow>
   (tried \<times> 'w \<times> scheduler) option" where
  "processDocuments env appln sr allDocs s =
     (let sr1 = sr\<lparr>allDocuments := map allDocEntry allDocs\<rparr>;
          uploadedDocs0 = filter has_file_url allDocs;
          sr2 = sr1\<lparr>uploaded := length uploadedDocs0\<rparr>;
          uploadedDocs = (if skipAlreadyVerified (config (snd s))
                          then filter (\<lambda>d. doc.verify_status d \<noteq> ''2'') uploadedDocs0
                          else uploadedDocs0);
          sr3 = sr2\<lparr>totalDocs := length uploadedDocs\<rparr>
      in if length uploadedDocs = 0 then
           (let sr4 = sr3\<lparr>student_result.status := ''skipped'',
                         student_result.endTime := Some (now env (fst s))\<rparr>
            in Some (Returned sr4,
                     setStudentResult appln sr4
                       (log env ''info'' (''Student '' @ appln @ '': No documents to verify'') None s)))
         else
           (case chunkArray uploadedDocs (concurrency (config (snd s))) of
              None \<Rightarrow> None
            | Some chunks \<Rightarrow>
                (case processChunks env appln chunks ((sr3, []), s) of
                   ((sr5, statusUpdates), s1) \<Rightarrow>
                     (case postStatusUpdates env appln statusUpdates s1 of
                        (Some err, s2) \<Rightarrow> Some (Threw err sr5, s2)
                      | (None, s2) \<Rightarrow>
                          Some (Finished
                                  (sr5\<lparr>student_result.status :=
                                         (if student_result.errors sr5 > 0 then ''partial''
                                          else ''completed'')\<rparr>),
                                s2)))))"

definition processStudent_try ::
  "'w env \<Rightarrow> string \<Rightarrow> student_result \<Rightarrow> 'w \<times> scheduler \<Rightarrow> (tried \<times> 'w \<times> scheduler) option" where
  "processStudent_try env appln sr s =
     (case withRetry env (getDocumentList env appln) (''Fetch docs for '' @ appln) s of
        (Inl err, s1) \<Rightarrow> Some (Threw err sr, resume env s1)
      | (Inr docListResponse, s1) \<Rightarrow>
          (case document_status docListResponse of
             None \<Rightarrow> Some (noDocumentList env appln sr (resume env s1))
           | Some allDocs \<Rightarrow>
               if doc_list_response.status docListResponse \<noteq> 1
               then Some (noDocumentList env appln sr (resume env s1))
               else processDocuments env appln sr allDocs (resume env s1)))"

text \<open>After the \<open>try\<close>/\<open>catch\<close>: stamp the end time, store the result, return it.\<close>

definition storeResult ::
  "'w env \<Rightarrow> string \<Rightarrow> student_result \<Rightarrow> 'w \<times> scheduler \<Rightarrow>
   (thrown + student_result) \<times> 'w \<times> scheduler" where
  "storeResult env appln sr s =
     (let sr1 = sr\<lparr>student_result.endTime := Some (now env (fst s))\<rparr>
      in (Inr sr1, setStudentResult appln sr1 s))"

text \<open>The student result \<open>processStudent\<close> starts from.\<close>

definition freshResult :: "'w env \<Rightarrow> string \<Rightarrow> string \<Rightarrow> 'w \<Rightarrow> student_result" where
  "freshResult env appln sname w =
     \<lparr>student_result.applnID = appln, studentName = (if sname = [] then appln else sname),
      student_result.status = ''processing'',
      student_result.startTime = now env w, student_result.endTime = None,
      totalDocs = 0, uploaded = 0, approved = 0, rejected = 0,
      student_result.errors = 0, student_result.skipped = 0,
      allDocuments = [], documents = []\<rparr>"

definition processStudent ::
  "'w env \<Rightarrow> string \<Rightarrow> string \<Rightarrow> 'w \<times> scheduler \<Rightarrow>
   ((thrown + student_result) \<times> 'w \<times> scheduler) option" where
  "processStudent env appln sname s =
     (case processStudent_try env appln (freshResult env appln sname (fst s)) s of
        None \<Rightarrow> None
      | Some (Returned sr, s1) \<Rightarrow> Some (Inr sr, s1)
      | Some (Finished sr, s1) \<Rightarrow> Some (storeResult env appln sr s1)
      | Some (Threw Undefined sr, s1) \<Rightarrow> Some (Inl typeError, s1)
      | Some (Threw (Error m) sr, s1) \<Rightarrow>
          Some (storeResult env appln (sr\<lparr>student_result.status := ''error''\<rparr>)
                  (log env ''error'' (''Student '' @ appln @ '': Processing failed'')
                     (Some [(''error'', m)]) s1)))"

section \<open>Runs\<close>

definition newRun :: "'w env \<Rightarrow> 'w \<Rightarrow> nat \<Rightarrow> run" where
  "newRun env w n =
     \<lparr>run_id = radix_string 36 (now env w), run.startTime = now env w, run.endTime = None,
      run.status = ''running'', totalStudents = n, processed = 0, completed = 0,
      run.skipped = 0, run.errors = 0, totalDocsVerified = 0, totalApproved = 0,
      totalRejected = 0, students = Some []\<rparr>"

text \<open>An assignment to a field of \<open>this.currentRun\<close>.\<close>

definition onRun :: "(run \<Rightarrow> run) \<Rightarrow> 'w \<times> scheduler \<Rightarrow> 'w \<times> scheduler" where
  "onRun f s = (fst s, (snd s)\<lparr>currentRun := map_option f (currentRun (snd s))\<rparr>)"

definition finishRun :: "scheduler \<Rightarrow> scheduler" where
  "finishRun st =
     (let st1 = st\<lparr>isRunning := False\<rparr>
      in case currentRun st1 of
           None \<Rightarrow> st1
         | Some r \<Rightarrow>
             (let pushed = runs st1 @ [r\<lparr>students := None\<rparr>]
              in st1\<lparr>runs := (if int (length pushed) > maxRuns st1
                                then slice_from pushed (- maxRuns st1) else pushed)\<rparr>))"

definition getRunDetail :: "scheduler \<Rightarrow> string \<Rightarrow> run option" where
  "getRunDetail st runId =
     (case currentRun st of
        None \<Rightarrow> find (\<lambda>r. run_id r = runId) (runs st)
      | Some r \<Rightarrow> if run_id r = runId then Some r else find (\<lambda>r. run_id r = runId) (runs st))"

text \<open>The tallies of \<open>verifySingleStudent\<close> (assignments) and of \<open>runBatch\<close> (increments)
  after a student has been processed.\<close>

definition tallySingle :: "student_result \<Rightarrow> run \<Rightarrow> run" where
  "tallySingle result r =
     (let r1 = r\<lparr>students := map_option (\<lambda>l. l @ [result]) (students r), processed := 1\<rparr>
      in if student_result.status result = ''completed'' \<or> student_result.status result = ''partial''
         then r1\<lparr>completed := 1, totalDocsVerified := totalDocs result,
                 totalApproved := approved result, totalRejected := rejected result\<rparr>
         else if student_result.status result = ''skipped'' then r1\<lparr>run.skipped := 1\<rparr>
         else r1\<lparr>run.errors := 1\<rparr>)"

definition tallyBatch :: "student_result \<Rightarrow> run \<Rightarrow> run" where
  "tallyBatch result r =
     (let r1 = r\<lparr>students := map_option (\<lambda>l. l @ [result]) (students r),
                 processed := processed r + 1\<rparr>
      in if student_result.status result = ''completed'' \<or> student_result.status result = ''partial''
         then r1\<lparr>completed := completed r1 + 1,
                 totalDocsVerified := totalDocsVerified r1 + totalDocs result,
                 totalApproved := totalApproved r1 + approved result,
                 totalRejected := totalRejected r1 + rejected result\<rparr>
         else if student_result.status result = ''skipped'' then r1\<lparr>run.skipped := run.skipped r1 + 1\<rparr>
         else r1\<lparr>run.errors := run.errors r1 + 1\<rparr>)"

definition verifySingleStudent ::
  "'w env \<Rightarrow> string \<Rightarrow> 'w \<times> scheduler \<Rightarrow> ((thrown + run option) \<times> 'w \<times> scheduler) option" where
  "verifySingleStudent env appln s =
     (case s of (w, st) \<Rightarrow>
        if isRunning st then
          Some (Inl (Error ''A batch job is currently running. Wait for it to finish or stop it first.''),
                (w, st))
        else
          (case processStudent env appln appln
                  (log env ''info''
                     (''========== SINGLE STUDENT VERIFICATION: '' @ appln @ '' =========='') None
                     (w, st\<lparr>isRunning := True, shouldStop := False,
                            currentRun := Some (newRun env w 1)\<rparr>)) of
             None \<Rightarrow> None
           | Some (Inl err, s1) \<Rightarrow> Some (Inl err, s1)
           | Some (Inr result, s1) \<Rightarrow>
               (case onRun (\<lambda>r. r\<lparr>run.status := ''completed'',
                                  run.endTime := Some (now env (fst s1))\<rparr>)
                       (onRun (tallySingle result) s1) of
                  (w2, st2) \<Rightarrow> Some (Inr (currentRun (finishRun st2)), (w2, finishRun st2)))))"

text \<open>\<open>student.applnID || student.id || student.application_id\<close> and the display name.\<close>

definition studentApplnID :: "student \<Rightarrow> string option" where
  "studentApplnID x =
     (if truthy (student.applnID x) then student.applnID x
      else if truthy (student_id x) then student_id x
      else or_null (application_id x))"

fun join_space :: "string list \<Rightarrow> string" where
  "join_space [] = []"
| "join_space [x] = x"
| "join_space (x # y # zs) = x @ '' '' @ join_space (y # zs)"

definition studentDisplayName :: "student \<Rightarrow> string \<Rightarrow> string" where
  "studentDisplayName x appln =
     (let joined = join_space (map the (filter truthy [first_name x, last_name x]))
      in if joined \<noteq> [] then joined
         else if truthy (name x) then the (name x) else appln)"

text \<open>The loop \<open>for (const student of students)\<close>; \<open>n\<close> is \<open>students.length\<close>. The
  result is what the loop throws, if anything. \<open>this.currentRun\<close> is set whenever the loop
  runs.\<close>

fun runBatch_loop ::
  "'w env \<Rightarrow> nat \<Rightarrow> student list \<Rightarrow> 'w \<times> scheduler \<Rightarrow> (thrown option \<times> 'w \<times> scheduler) option" where
  "runBatch_loop env n [] s = Some (None, s)"
| "runBatch_loop env n (x # rest) s =
     (if shouldStop (snd s) then
        Some (None, onRun (\<lambda>r. r\<lparr>run.status := ''stopped''\<rparr>)
                      (log env ''info'' ''Batch stopped by user'' None s))
      else
        (case studentApplnID x of
           None \<Rightarrow> runBatch_loop env n rest s
         | Some appln \<Rightarrow>
             (case processStudent env appln (studentDisplayName x appln)
                     (log env ''info''
                        (''Processing student '' @
                         show_nat (case currentRun (snd s) of None \<Rightarrow> 0 | Some r \<Rightarrow> processed r + 1) @
                         ''/'' @ show_nat n @ '': '' @ appln @ '' ('' @
                         studentDisplayName x appln @ '')'') None s) of
                None \<Rightarrow> None
              | Some (Inl err, s1) \<Rightarrow> Some (Some err, s1)
              | Some (Inr result, s1) \<Rightarrow>
                  runBatch_loop env n rest
                    (if \<not> shouldStop (snd s1)
                     then resume env
                            (sleep env (delayBetweenStudentsMs (config (snd s1))) (fst s1),
                             snd (onRun (tallyBatch result) s1))
                     else onRun (tallyBatch result) s1))))"

text \<open>The end of \<open>runBatch\<close> after its \<open>try\<close>/\<open>catch\<close>.\<close>

definition batchFinished :: "'w env \<Rightarrow> 'w \<times> scheduler \<Rightarrow> (thrown + run option) \<times> 'w \<times> scheduler" where
  "batchFinished env s =
     (case onRun (\<lambda>r. r\<lparr>run.endTime := Some (now env (fst s))\<rparr>) s of
        s1 \<Rightarrow>
          (case log env ''info''
                  (''========== BATCH FINISHED: '' @
                   (case currentRun (snd s1) of None \<Rightarrow> [] | Some r \<Rightarrow> run.status r) @ '' =========='')
                  (case currentRun (snd s1) of None \<Rightarrow> None
                   | Some r \<Rightarrow> Some [(''processed'', show_nat (processed r)),
                                       (''completed'', show_nat (completed r)),
                                       (''approved'', show_nat (totalApproved r)),
                                       (''rejected'', show_nat (totalRejected r))]) s1 of
             (w2, st2) \<Rightarrow> (Inr (currentRun (finishRun st2)), (w2, finishRun st2))))"

text \<open>The \<open>catch\<close> block of \<open>runBatch\<close>, then its end.\<close>

definition batchFailed ::
  "'w env \<Rightarrow> thrown \<Rightarrow> 'w \<times> scheduler \<Rightarrow> (thrown + run option) \<times> 'w \<times> scheduler" where
  "batchFailed env err s =
     (case err of
        Undefined \<Rightarrow> (Inl typeError, s)
      | Error m \<Rightarrow>
          batchFinished env
            (onRun (\<lambda>r. r\<lparr>run.status := ''error''\<rparr>)
               (log env ''error'' ''Batch run failed'' (Some [(''error'', m)]) s)))"

definition runBatch ::
  "'w env \<Rightarrow> 'w \<times> scheduler \<Rightarrow> ((thrown + run option) \<times> 'w \<times> scheduler) option" where
  "runBatch env s =
     (case s of (w, st) \<Rightarrow>
        if isRunning st then
          Some (Inr None, log env ''warn'' ''Batch already running, skipping'' None (w, st))
        else
          (case withRetry env (getStudentList env) ''Fetch student list''
                  (log env ''info'' ''========== BATCH VERIFICATION STARTED =========='' None
                     (w, st\<lparr>isRunning := True, shouldStop := False,
                            currentRun := Some (newRun env w 0)\<rparr>)) of
             (Inl err, s1) \<Rightarrow> Some (batchFailed env err (resume env s1))
           | (Inr None, s1) \<Rightarrow>
               (case onRun (\<lambda>r. r\<lparr>run.status := ''error'',
                                  run.endTime := Some (now env (fst s1))\<rparr>)
                       (log env ''error'' ''Failed to fetch student list'' None (resume env s1)) of
                  (w2, st2) \<Rightarrow> Some (Inr (currentRun (finishRun st2)), (w2, finishRun st2)))
           | (Inr (Some dat), s1) \<Rightarrow>
               (let studs = (case dat of Many l \<Rightarrow> l | One x \<Rightarrow> [x])
                in case runBatch_loop env (length studs) studs
                          (log env ''info''
                             (''Found '' @ show_nat (length studs) @ '' students to process'') None
                             (onRun (\<lambda>r. r\<lparr>totalStudents := length studs\<rparr>) (resume env s1))) of
                     None \<Rightarrow> None
                   | Some (Some err, s2) \<Rightarrow> Some (batchFailed env err s2)
                   | Some (None, s2) \<Rightarrow>
                       Some (batchFinished env
                               (onRun (\<lambda>r. if run.status r = ''running''
                                           then r\<lparr>run.status := ''completed''\<rparr> else r) s2)))))"


text \<open>The scheduler as its constructor leaves it when no environment variable is set.\<close>

definition new_scheduler :: scheduler where
  "new_scheduler =
     \<lparr>cronJob = False, isRunning = False, shouldStop = False,
      config = \<lparr>cronSchedule = ''0 */2 * * *'', concurrency = 2, retryAttempts = 3,
                retryDelayMs = 2000, delayBetweenStudentsMs = 1000, delayBetweenDocsMs = 500,
                skipAlreadyVerified = True, autoStart = False\<rparr>,
      currentRun = None, runs = [], logs = [], maxLogs = 500, maxRuns = 50,
      studentResults = []\<rparr>"

section \<open>A recording environment\<close>

text \<open>
  To speak about which external calls were made, and in which order, the world is
  instantiated by the list of the calls made so far. A script answers each call from that
  history, so any deterministic behaviour of the collaborators is a script.
\<close>

datatype event =
    Slept int
  | CronStopped
  | StopDelivered
  | ListedStudents
  | ListedDocuments string
  | UpdatedStatus string "status_update list"
  | Downloaded string
  | Verified string descriptor
  | Invoked

record script =
  clock :: "event list \<Rightarrow> nat"
  stop_asked :: "event list \<Rightarrow> bool"
  students_reply :: "event list \<Rightarrow> thrown + student_list_data option"
  documents_reply :: "event list \<Rightarrow> string \<Rightarrow> thrown + doc_list_response"
  update_reply :: "event list \<Rightarrow> string \<Rightarrow> status_update list \<Rightarrow> thrown + unit"
  download_reply :: "event list \<Rightarrow> string \<Rightarrow> thrown + download"
  verify_reply :: "event list \<Rightarrow> string \<Rightarrow> descriptor \<Rightarrow> thrown + verification"

definition recording :: "script \<Rightarrow> (event list) env" where
  "recording sc =
     \<lparr>now = clock sc,
      sleep = (\<lambda>ms tr. tr @ [Slept ms]),
      cronStop = (\<lambda>tr. tr @ [CronStopped]),
      stopArrives = (\<lambda>tr. (stop_asked sc tr, if stop_asked sc tr then tr @ [StopDelivered] else tr)),
      getStudentList = (\<lambda>tr. (students_reply sc tr, tr @ [ListedStudents])),
      getDocumentList = (\<lambda>a tr. (documents_reply sc tr a, tr @ [ListedDocuments a])),
      updateDocumentStatus = (\<lambda>a us tr. (update_reply sc tr a us, tr @ [UpdatedStatus a us])),
      downloadDocument = (\<lambda>u tr. (download_reply sc tr u, tr @ [Downloaded u])),
      verify = (\<lambda>b x tr. (verify_reply sc tr b x, tr @ [Verified b x]))\<rparr>"

text \<open>An arbitrary operation handed to \<open>withRetry\<close>: each invocation is recorded and
  answered from the history.\<close>

definition invoking :: "(event list \<Rightarrow> thrown + 'a) \<Rightarrow> event list \<Rightarrow> (thrown + 'a) \<times> event list" where
  "invoking reply tr = (reply tr, tr @ [Invoked])"

text \<open>The calls of \<open>n\<close> attempts that all fail, with base delay \<open>d\<close>: an invocation per
  attempt and, before each retry, a wait of \<open>d * 2 ^ (attempt - 1)\<close>.\<close>

definition backoff_events :: "int \<Rightarrow> nat \<Rightarrow> event list" where
  "backoff_events d n =
     concat (map (\<lambda>a. Invoked # (if a < n then [Slept (d * 2 ^ (a - 1))] else [])) [1..<Suc n])"

text \<open>A sequence of insertions into the log, and the entry an insertion makes.\<close>

definition logEntry :: "'w env \<Rightarrow> 'w \<Rightarrow> string \<times> string \<times> (string \<times> string) list option \<Rightarrow> log_entry" where
  "logEntry env w e =
     (case e of (lvl, msg, dat) \<Rightarrow> \<lparr>timestamp = now env w, level = lvl, message = msg, data = dat\<rparr>)"

definition log_all ::
  "'w env \<Rightarrow> (string \<times> string \<times> (string \<times> string) list option) list \<Rightarrow>
   'w \<times> scheduler \<Rightarrow> 'w \<times> scheduler" where
  "log_all env es s = foldl (\<lambda>s' e. case e of (lvl, msg, dat) \<Rightarrow> log env lvl msg dat s') s es"

text \<open>The sum of the four outcome counters of a student result.\<close>

definition counted :: "student_result \<Rightarrow> nat" where
  "counted sr = approved sr + rejected sr + student_result.errors sr + student_result.skipped sr"


text \<open>A script of collaborators that never fail and never ask for a stop: the clock counts
  the calls made, no student or document list comes back, a download returns the URL as
  content, and the backend rejects. The scenarios below override single answers.\<close>

definition quiet :: script where
  "quiet =
     \<lparr>clock = length,
      stop_asked = (\<lambda>tr. False),
      students_reply = (\<lambda>tr. Inr None),
      documents_reply = (\<lambda>tr a. Inr \<lparr>doc_list_response.status = 0, document_status = None\<rparr>),
      update_reply = (\<lambda>tr a us. Inr ()),
      download_reply = (\<lambda>tr u. Inr \<lparr>buffer = u, download.contentType = ''application/pdf''\<rparr>),
      verify_reply = (\<lambda>tr b x. Inr \<lparr>verification.status = ''reject'', verification.confidence = 90,
                                       verification.remark = ''Wrong document'',
                                       verification.issues = [], verification.extracted_data = []\<rparr>)\<rparr>"

text \<open>The work items and collaborators of the scenarios: items \<open>A\<close>, \<open>B\<close> and \<open>D\<close> have a
  file, item \<open>C\<close> has none. In \<open>scenario\<close> the backend fails twice on \<open>A\<close> with a transient
  error and then approves it, and rejects everything else. In \<open>stopping\<close> the administrator
  asks for a stop once the backend has been called.\<close>

definition item :: "string \<Rightarrow> string \<Rightarrow> string option \<Rightarrow> doc" where
  "item tid lbl url =
     \<lparr>doc.document_type_id = tid, doc.document_type_name = ''Certificate'',
      doc.document_label = lbl, doc.document_description = ''Scanned original'',
      document_is_required = ''1'', doc.file_url = url, doc.filename = url,
      doc.verify_status = ''0'', doc.doc_upload_id = tid\<rparr>"

definition itemA :: doc where "itemA = item ''1'' ''A'' (Some ''a.pdf'')"
definition itemB :: doc where "itemB = item ''2'' ''B'' (Some ''b.pdf'')"
definition itemC :: doc where "itemC = item ''3'' ''C'' None"
definition itemD :: doc where "itemD = item ''4'' ''D'' (Some ''d.pdf'')"

definition approving :: verification where
  "approving =
     \<lparr>verification.status = ''approve'', verification.confidence = 95,
      verification.remark = ''Looks valid'', verification.issues = [],
      verification.extracted_data = []\<rparr>"

definition is_verified :: "event \<Rightarrow> bool" where
  "is_verified e = (case e of Verified b x \<Rightarrow> True | _ \<Rightarrow> False)"

definition verifications_of :: "string \<Rightarrow> event list \<Rightarrow> nat" where
  "verifications_of b tr =
     length (filter (\<lambda>e. case e of Verified b' x \<Rightarrow> b' = b | _ \<Rightarrow> False) tr)"

definition scenario :: script where
  "scenario =
     quiet\<lparr>documents_reply :=
             (\<lambda>tr a. Inr \<lparr>doc_list_response.status = 1,
                            document_status = Some [itemA, itemB, itemC]\<rparr>),
           verify_reply :=
             (\<lambda>tr b x. if b = ''a.pdf''
                        then (if verifications_of b tr < 2 then Inl (Error ''socket hang up'')
                              else Inr approving)
                        else verify_reply quiet tr b x)\<rparr>"

definition stopping :: script where
  "stopping =
     quiet\<lparr>documents_reply :=
             (\<lambda>tr a. Inr \<lparr>doc_list_response.status = 1,
                            document_status = Some [itemA, itemB, itemD]\<rparr>),
           stop_asked := (\<lambda>tr. list_ex is_verified tr \<and> \<not> list_ex (\<lambda>e. e = StopDelivered) tr)\<rparr>"

text \<open>The same calls from attempt \<open>a\<close> on.\<close>

definition events_from :: "int \<Rightarrow> nat \<Rightarrow> nat \<Rightarrow> event list" where
  "events_from d a n =
     concat (map (\<lambda>k. Invoked # (if k < n then [Slept (d * 2 ^ (k - 1))] else [])) [a..<Suc n])"

text \<open>What a run leaves alone while a student is processed: everything but the log, the cron
  task, the student results and a stop flag that may have been raised.\<close>

definition steady :: "scheduler \<Rightarrow> scheduler \<Rightarrow> bool" where
  "steady st st' \<longleftrightarrow>
     config st' = config st \<and> isRunning st' = isRunning st \<and> currentRun st' = currentRun st \<and>
     runs st' = runs st \<and> maxLogs st' = maxLogs st \<and> maxRuns st' = maxRuns st \<and>
     (shouldStop st \<longrightarrow> shouldStop st')"

text \<open>The log buffer after an insertion.\<close>

definition logged ::
  "'w env \<Rightarrow> string \<Rightarrow> string \<Rightarrow> (string \<times> string) list option \<Rightarrow> 'w \<times> scheduler \<Rightarrow> log_entry list" where
  "logged env lvl msg dat s = logs (snd (log env lvl msg dat s))"

text \<open>A property of the world that the clock-free collaborators used outside the worker pool
  preserve.\<close>

definition preserved :: "'w env \<Rightarrow> ('w \<Rightarrow> bool) \<Rightarrow> bool" where
  "preserved env I \<longleftrightarrow>
     (\<forall>w. I w \<longrightarrow>
        (\<forall>ms. I (sleep env ms w)) \<and> I (cronStop env w) \<and> I (snd (stopArrives env w)) \<and>
        (\<forall>a. I (snd (getDocumentList env a w))) \<and>
        (\<forall>a us. I (snd (updateDocumentStatus env a us w))))"

text \<open>The same for the download and verification of one work item.\<close>

definition serves :: "'w env \<Rightarrow> ('w \<Rightarrow> bool) \<Rightarrow> doc \<Rightarrow> bool" where
  "serves env I d \<longleftrightarrow>
     (\<forall>url w. doc.file_url d = Some url \<longrightarrow> has_file_url d \<longrightarrow> I w \<longrightarrow>
        I (snd (downloadAndVerify env d url w)))"

text \<open>The student result a \<open>try\<close> block ended with, and whether it ended by an exception.\<close>

definition result_of :: "tried \<Rightarrow> student_result" where
  "result_of t = (case t of Returned sr \<Rightarrow> sr | Finished sr \<Rightarrow> sr | Threw e sr \<Rightarrow> sr)"

definition threw :: "tried \<Rightarrow> bool" where
  "threw t = (case t of Threw e sr \<Rightarrow> True | _ \<Rightarrow> False)"

text \<open>What the scenarios read off a run of \<open>processStudent\<close>: the counters and status of the
  student result, the number of backend calls, the waits and stop deliveries, and the
  recorded outcome of every entry of \<open>allDocuments\<close> and of \<open>documents\<close>.\<close>

definition summary ::
  "((thrown + student_result) \<times> event list \<times> scheduler) option \<Rightarrow>
   ((nat \<times> nat \<times> nat \<times> nat \<times> nat \<times> string) \<times> nat \<times> event list \<times>
    string option list \<times> string list) option" where
  "summary r =
     (case r of
        Some (Inr sr, (tr, st)) \<Rightarrow>
          Some ((totalDocs sr, approved sr, rejected sr, student_result.skipped sr,
                 student_result.errors sr, student_result.status sr),
                length (filter is_verified tr),
                filter (\<lambda>e. case e of Slept ms \<Rightarrow> True | StopDelivered \<Rightarrow> True | _ \<Rightarrow> False) tr,
                map all_doc_entry.ai_status (allDocuments sr),
                map doc_result.ai_status (documents sr))
      | _ \<Rightarrow> None)"

text \<open>The student result \<open>processStudent\<close> returned, if it returned one.\<close>

definition finalized :: "((thrown + student_result) \<times> 's) option \<Rightarrow> student_result option" where
  "finalized r = (case r of Some (Inr sr, s) \<Rightarrow> Some sr | _ \<Rightarrow> None)"

text \<open>After a call that returned a run: what \<open>getRunDetail\<close> answers for that run's id in
  the state the call left, and whether that state is idle.\<close>

definition detail_after :: "((thrown + run option) \<times> 'w \<times> scheduler) option \<Rightarrow> run option" where
  "detail_after r =
     (case r of Some (Inr (Some x), (w, st)) \<Rightarrow> getRunDetail st (run_id x) | _ \<Rightarrow> None)"

definition idle_after :: "((thrown + run option) \<times> 'w \<times> scheduler) option \<Rightarrow> bool" where
  "idle_after r = (case r of Some (x, (w, st)) \<Rightarrow> \<not> isRunning st | None \<Rightarrow> False)"

text \<open>The descriptor handed to the backend is that of the work item.\<close>

definition described :: "doc \<Rightarrow> descriptor \<Rightarrow> bool" where
  "described d x \<longleftrightarrow>
     descriptor.filename x = doc.filename d \<and>
     descriptor.document_label x = doc.document_label d \<and>
     descriptor.document_type_name x = doc.document_type_name d \<and>
     descriptor.document_description x = doc.document_description d"

text \<open>A download or a verification is made on behalf of a listed work item that has a file;
  every other call is left unconstrained.\<close>

definition backend_call_for :: "doc list \<Rightarrow> event \<Rightarrow> bool" where
  "backend_call_for docs e =
     (case e of
        Downloaded u \<Rightarrow> (\<exists>d \<in> set docs. has_file_url d \<and> doc.file_url d = Some u)
      | Verified b x \<Rightarrow> (\<exists>d \<in> set docs. has_file_url d \<and> described d x)
      | _ \<Rightarrow> True)"

text \<open>The calls made since \<open>tr\<close> all satisfy \<open>P\<close>.\<close>

definition extends_by :: "(event \<Rightarrow> bool) \<Rightarrow> event list \<Rightarrow> event list \<Rightarrow> bool" where
  "extends_by P tr tr' \<longleftrightarrow> (\<exists>new. tr' = tr @ new \<and> (\<forall>e \<in> set new. P e))"

text \<open>From \<open>sr\<close> to \<open>sr'\<close>, \<open>documents\<close> only gained entries of listed work items that have
  a file, and no entry of \<open>allDocuments\<close> changed its \<open>is_uploaded\<close> flag.\<close>

definition grown :: "doc list \<Rightarrow> student_result \<Rightarrow> student_result \<Rightarrow> bool" where
  "grown docs sr sr' \<longleftrightarrow>
     (\<exists>added. documents sr' = documents sr @ added \<and>
        (\<forall>x \<in> set added. \<exists>d \<in> set docs. has_file_url d \<and>
            doc_result.file_url x = doc.file_url d \<and>
            doc_result.document_type_id x = doc.document_type_id d)) \<and>
     map is_uploaded (allDocuments sr') = map is_uploaded (allDocuments sr)"

section \<open>The log buffer\<close>

lemma log_world [simp]: "fst (log env lvl msg dat s) = fst s"
  by (simp add: log_def Let_def split: prod.splits)

lemma log_maxLogs [simp]: "maxLogs (snd (log env lvl msg dat s)) = maxLogs (snd s)"
  by (simp add: log_def Let_def split: prod.splits)

lemma slice_from_neg:
  assumes "0 < (n::nat)"
  shows "slice_from xs (- int n) = drop (length xs - n) xs"
proof -
  have "nat (max (int (length xs) + - int n) 0) = length xs - n"
    by linarith
  then show ?thesis
    using assms by (simp add: slice_from_def Let_def)
qed

lemma log_logs:
  assumes "maxLogs st = int n" "0 < n"
  shows "logs (snd (log env lvl msg dat (w, st))) =
         drop (Suc (length (logs st)) - n) (logs st @ [logEntry env w (lvl, msg, dat)])"
proof -
  let ?pushed = "logs st @ [logEntry env w (lvl, msg, dat)]"
  have len: "length ?pushed = Suc (length (logs st))" by simp
  have sl: "slice_from ?pushed (- int n) = drop (length ?pushed - n) ?pushed"
    using assms(2) by (rule slice_from_neg)
  have "logs (snd (log env lvl msg dat (w, st))) =
        (if length ?pushed > n then slice_from ?pushed (- int n) else ?pushed)"
    using assms(1) by (simp add: log_def Let_def logEntry_def)
  also have "\<dots> = drop (length ?pushed - n) ?pushed"
    using sl by simp
  finally show ?thesis by (simp only: len)
qed

lemma keep_keep:
  assumes "0 < (n::nat)"
  shows "drop (Suc (length (drop (length xs - n) xs)) - n) (drop (length xs - n) xs @ [y]) =
         drop (Suc (length xs) - n) (xs @ [y])"
  using assms by (cases "length xs \<le> n") (auto simp: Suc_diff_le)

lemma log_all_Cons:
  "log_all env ((lvl, msg, dat) # es) s = log_all env es (log env lvl msg dat s)"
  by (simp add: log_all_def)

lemma log_all_snoc:
  "log_all env (es @ [(lvl, msg, dat)]) s = log env lvl msg dat (log_all env es s)"
  by (simp add: log_all_def)

lemma log_all_world [simp]: "fst (log_all env es s) = fst s"
  by (induction es rule: rev_induct) (auto simp: log_all_def split: prod.splits)

lemma log_all_maxLogs [simp]: "maxLogs (snd (log_all env es s)) = maxLogs (snd s)"
  by (induction es rule: rev_induct) (auto simp: log_all_def split: prod.splits)

lemma log_all_logs:
  assumes "maxLogs st = int n" "0 < n"
  shows "logs (snd (log_all env es (w, st))) =
         (if es = [] then logs st
          else drop (length (logs st) + length es - n) (logs st @ map (logEntry env w) es))"
proof (induction es rule: rev_induct)
  case Nil
  then show ?case by (simp add: log_all_def)
next
  case (snoc e es)
  obtain lvl msg dat where e: "e = (lvl, msg, dat)" by (cases e) auto
  obtain w1 st1 where s1: "log_all env es (w, st) = (w1, st1)" by (cases "log_all env es (w, st)")
  have w1: "w1 = w" using s1 log_all_world[of env es "(w, st)"] by simp
  have m1: "maxLogs st1 = int n" using s1 log_all_maxLogs[of env es "(w, st)"] assms(1) by simp
  have l1: "logs st1 = (if es = [] then logs st
          else drop (length (logs st) + length es - n) (logs st @ map (logEntry env w) es))"
    using snoc.IH s1 by simp
  have "logs (snd (log_all env (es @ [e]) (w, st))) =
        drop (Suc (length (logs st1)) - n) (logs st1 @ [logEntry env w e])"
    using log_logs[OF m1 assms(2), of env lvl msg dat w] s1 w1 e by (simp add: log_all_snoc)
  also have "\<dots> = drop (length (logs st) + length (es @ [e]) - n)
                     (logs st @ map (logEntry env w) (es @ [e]))"
  proof (cases "es = []")
    case True
    then show ?thesis using l1 by simp
  next
    case False
    let ?xs = "logs st @ map (logEntry env w) es"
    have "logs st1 = drop (length ?xs - n) ?xs" using l1 False by simp
    then show ?thesis using keep_keep[OF assms(2), of ?xs "logEntry env w e"] by simp
  qed
  finally show ?case by simp
qed

text \<open>
  C9. With a positive capacity \<open>N = maxLogs\<close>, after \<open>N + 1\<close> insertions the buffer
  holds exactly the newest \<open>N\<close> entries, in insertion order (the oldest of the \<open>N + 1\<close> is
  gone, whatever the buffer held before), and after any non-empty sequence of insertions
  the buffer holds at most \<open>N\<close> entries.
\<close>

theorem log_buffer_capacity:
  assumes "0 < maxLogs st"
    and "length es = nat (maxLogs st) + 1"
    and "ins \<noteq> []"
  shows "logs (snd (log_all env es (w, st))) = map (logEntry env w) (tl es) \<and>
         int (length (logs (snd (log_all env ins (w, st))))) \<le> maxLogs st"
proof -
  obtain n where n: "maxLogs st = int n" "0 < n"
    using assms(1) by (metis nat_0_le less_imp_le zero_less_nat_eq)
  have es: "es \<noteq> []" "length es = Suc n" using assms(2) n by auto
  have "logs (snd (log_all env es (w, st))) =
        drop (length (logs st) + Suc n - n) (logs st @ map (logEntry env w) es)"
    using log_all_logs[OF n, of env es w] es by simp
  also have "\<dots> = drop 1 (map (logEntry env w) es)" by simp
  also have "\<dots> = map (logEntry env w) (tl es)" by (simp add: drop_Suc map_tl)
  finally have a: "logs (snd (log_all env es (w, st))) = map (logEntry env w) (tl es)" .
  have "length (logs (snd (log_all env ins (w, st)))) \<le> n"
    using log_all_logs[OF n, of env ins w] assms(3) by simp
  then show ?thesis using a n by simp
qed

theorem log_buffer_capacity_witness:
  "logs (snd (log_all (recording quiet)
            [(''info'', ''one'', None), (''warn'', ''two'', None), (''error'', ''three'', None)]
            ([], new_scheduler\<lparr>maxLogs := 2\<rparr>))) =
   map (logEntry (recording quiet) [])
     (tl [(''info'', ''one'', None), (''warn'', ''two'', None), (''error'', ''three'', None)]) \<and>
   int (length (logs (snd (log_all (recording quiet) [(''info'', ''one'', None)]
                             ([], new_scheduler\<lparr>maxLogs := 2\<rparr>))))) \<le> 2"
  using log_buffer_capacity[of "new_scheduler\<lparr>maxLogs := 2\<rparr>"
      "[(''info'', ''one'', None), (''warn'', ''two'', None), (''error'', ''three'', None)]"
      "[(''info'', ''one'', None)]" "recording quiet" "[]"]
  by (simp add: new_scheduler_def)

section \<open>The retry policy\<close>

lemma recording_simps [simp]:
  "now (recording sc) = clock sc"
  "sleep (recording sc) ms tr = tr @ [Slept ms]"
  "cronStop (recording sc) tr = tr @ [CronStopped]"
  "stopArrives (recording sc) tr = (stop_asked sc tr, if stop_asked sc tr then tr @ [StopDelivered] else tr)"
  "getStudentList (recording sc) tr = (students_reply sc tr, tr @ [ListedStudents])"
  "getDocumentList (recording sc) a tr = (documents_reply sc tr a, tr @ [ListedDocuments a])"
  "updateDocumentStatus (recording sc) a us tr = (update_reply sc tr a us, tr @ [UpdatedStatus a us])"
  "downloadDocument (recording sc) u tr = (download_reply sc tr u, tr @ [Downloaded u])"
  "verify (recording sc) b x tr = (verify_reply sc tr b x, tr @ [Verified b x])"
  by (simp_all add: recording_def)

lemma log_frame:
  "snd (log env lvl msg dat s) = (snd s)\<lparr>logs := logs (snd (log env lvl msg dat s))\<rparr>"
  by (simp add: log_def Let_def split: prod.splits)

lemma log_pair:
  "log env lvl msg dat (w, st) = (w, st\<lparr>logs := logs (snd (log env lvl msg dat (w, st)))\<rparr>)"
  by (simp add: log_def Let_def)

lemma log_frame_ex: "\<exists>L. snd (log env lvl msg dat (w, st)) = st\<lparr>logs := L\<rparr>"
  using log_frame[of env lvl msg dat "(w, st)"] by (metis snd_conv)

lemma events_from_step:
  "a \<le> n \<Longrightarrow> events_from d a n =
     Invoked # (if a < n then [Slept (d * 2 ^ (a - 1))] else []) @ events_from d (Suc a) n"
  by (simp add: events_from_def upt_conv_Cons)

lemma events_from_done: "n < a \<Longrightarrow> events_from d a n = []"
  by (simp add: events_from_def)

lemma events_from_last: "a \<le> n \<Longrightarrow> events_from d a n \<noteq> [] \<and> last (events_from d a n) = Invoked"
  by (simp add: events_from_def)

lemma events_from_count: "length (filter (\<lambda>e. e = Invoked) (events_from d a n)) = Suc n - a"
proof (induction "Suc n - a" arbitrary: a)
  case 0
  then show ?case by (simp add: events_from_done)
next
  case (Suc k)
  then have "a \<le> n" by simp
  then show ?case using Suc events_from_step[of a n d] by (auto)
qed

lemma exhaust_loop:
  assumes retry: "\<And>h. \<not> nonRetryable (msg h)"
    and fn: "fn = invoking (\<lambda>h. Inl (Error (msg h)))"
  shows "retryAttempts (config st) = int n \<Longrightarrow> 1 \<le> a \<Longrightarrow> a \<le> n \<Longrightarrow>
         \<exists>L. withRetry_loop (recording sc) fn label (int a) lastError (tr, st) =
           (Inl (Error (msg (tr @ butlast (events_from (retryDelayMs (config st)) a n)))),
            tr @ events_from (retryDelayMs (config st)) a n, st\<lparr>logs := L\<rparr>)"
proof (induction "n - a" arbitrary: a tr st lastError)
  case 0
  then have an: "a = n" by simp
  have ev: "events_from (retryDelayMs (config st)) a n = [Invoked]"
    using an events_from_step[of a n] by (simp add: events_from_done)
  have "withRetry_loop (recording sc) fn label (int a) lastError (tr, st) =
        withRetry_loop (recording sc) fn label (int a + 1) (Error (msg tr)) (tr @ [Invoked], st)"
    using 0 an retry by (subst withRetry_loop.simps) (simp add: invoking_def fn)
  also have "\<dots> = (Inl (Error (msg tr)), tr @ [Invoked], st)"
    using 0 an by (subst withRetry_loop.simps) simp
  finally show ?case using ev by (intro exI[of _ "logs st"]) simp
next
  case (Suc k)
  then have lt: "a < n" by simp
  let ?d = "retryDelayMs (config st)"
  let ?delay = "?d * 2 ^ nat (int a - 1)"
  have pw: "nat (int a - 1) = a - 1" by simp
  let ?m = "label @ '' failed (attempt '' @ show_int (int a) @ ''/'' @ show_int (retryAttempts (config st)) @
         ''), retrying in '' @ show_int ?delay @ ''ms: '' @ msg tr"
  define L1 where "L1 = logs (snd (log (recording sc) ''warn'' ?m None (tr @ [Invoked], st)))"
  have L1: "log (recording sc) ''warn'' ?m None (tr @ [Invoked], st) = (tr @ [Invoked], st\<lparr>logs := L1\<rparr>)"
    unfolding L1_def by (rule log_pair)
  have unfold1: "withRetry_loop (recording sc) fn label (int a) lastError (tr, st) =
        withRetry_loop (recording sc) fn label (int a + 1) (Error (msg tr))
          (tr @ [Invoked] @ [Slept ?delay], st\<lparr>logs := L1\<rparr>)"
    using Suc.prems lt retry L1
    by (subst withRetry_loop.simps) (simp add: invoking_def fn Let_def split: prod.splits)
  have cfg: "retryAttempts (config (st\<lparr>logs := L1\<rparr>)) = int n" "retryDelayMs (config (st\<lparr>logs := L1\<rparr>)) = ?d"
    using Suc.prems by simp_all
  have "k = n - Suc a" using Suc.hyps by simp
  from Suc.hyps(1)[OF this cfg(1), of "Error (msg tr)" "tr @ [Invoked] @ [Slept ?delay]"] lt
  obtain L where L: "withRetry_loop (recording sc) fn label (int (Suc a)) (Error (msg tr))
        (tr @ [Invoked] @ [Slept ?delay], st\<lparr>logs := L1\<rparr>) =
       (Inl (Error (msg ((tr @ [Invoked] @ [Slept ?delay]) @ butlast (events_from ?d (Suc a) n)))),
        (tr @ [Invoked] @ [Slept ?delay]) @ events_from ?d (Suc a) n, st\<lparr>logs := L\<rparr>)"
    using cfg(2) by auto
  have ev: "events_from ?d a n = [Invoked] @ [Slept ?delay] @ events_from ?d (Suc a) n"
    using events_from_step[of a n ?d] lt pw by simp
  have ne: "events_from ?d (Suc a) n \<noteq> []" using events_from_last[of "Suc a" n ?d] lt by simp
  have bl: "butlast (events_from ?d a n) = [Invoked] @ [Slept ?delay] @ butlast (events_from ?d (Suc a) n)"
    using ev ne by (simp add: butlast_append)
  have "int a + 1 = int (Suc a)" by simp
  then show ?case using unfold1 L ev bl by (intro exI[of _ L]) (simp only: append_assoc)
qed


lemma backoff_events_from: "backoff_events d n = events_from d 1 n"
  by (simp add: backoff_events_def events_from_def)

text \<open>
  C5. When every invocation of the operation throws an error that is not of the
  non-retryable kind and \<open>retryAttempts = n \<ge> 1\<close>, \<open>withRetry\<close> invokes the operation
  exactly \<open>n\<close> times, sleeps \<open>retryDelayMs * 2 ^ (attempt - 1)\<close> after each failed attempt
  but the last, changes nothing of the scheduler but its log, and throws the error of the
  last invocation.
\<close>

theorem withRetry_exhausts_attempts:
  assumes "\<forall>h. \<not> nonRetryable (msg h)"
    and "retryAttempts (config st) = int n"
    and "1 \<le> n"
  shows "(\<exists>L. withRetry (recording sc) (invoking (\<lambda>h. Inl (Error (msg h)))) label (tr, st) =
            (Inl (Error (msg (tr @ butlast (backoff_events (retryDelayMs (config st)) n)))),
             tr @ backoff_events (retryDelayMs (config st)) n, st\<lparr>logs := L\<rparr>)) \<and>
         length (filter (\<lambda>e. e = Invoked) (backoff_events (retryDelayMs (config st)) n)) = n \<and>
         last (backoff_events (retryDelayMs (config st)) n) = Invoked"
proof -
  have r: "\<And>h. \<not> nonRetryable (msg h)" using assms(1) by simp
  have "\<exists>L. withRetry_loop (recording sc) (invoking (\<lambda>h. Inl (Error (msg h)))) label (int 1) Undefined (tr, st) =
           (Inl (Error (msg (tr @ butlast (events_from (retryDelayMs (config st)) 1 n)))),
            tr @ events_from (retryDelayMs (config st)) 1 n, st\<lparr>logs := L\<rparr>)"
    using assms(2,3) by (intro exhaust_loop[OF r refl]) simp_all
  then have a: "\<exists>L. withRetry (recording sc) (invoking (\<lambda>h. Inl (Error (msg h)))) label (tr, st) =
            (Inl (Error (msg (tr @ butlast (backoff_events (retryDelayMs (config st)) n)))),
             tr @ backoff_events (retryDelayMs (config st)) n, st\<lparr>logs := L\<rparr>)"
    by (simp add: withRetry_def backoff_events_from)
  have b: "length (filter (\<lambda>e. e = Invoked) (backoff_events (retryDelayMs (config st)) n)) = n"
    using events_from_count[of "retryDelayMs (config st)" 1 n] by (simp add: backoff_events_from)
  have c: "last (backoff_events (retryDelayMs (config st)) n) = Invoked"
    using events_from_last[of 1 n "retryDelayMs (config st)"] assms(3) by (simp add: backoff_events_from)
  show ?thesis using a b c by blast
qed

lemma backoff_events_3: "backoff_events d 3 = [Invoked, Slept d, Invoked, Slept (d * 2), Invoked]"
proof -
  have "[1..<Suc 3] = [1, 2, 3]" by (simp add: upt_conv_Cons)
  then show ?thesis by (simp add: backoff_events_def)
qed

theorem withRetry_exhausts_attempts_witness:
  "\<exists>L. withRetry (recording quiet)
          (invoking (\<lambda>h. Inl (Error ''timeout'')) :: event list \<Rightarrow> (thrown + unit) \<times> event list)
          ''Verify A'' ([], new_scheduler) =
        (Inl (Error ''timeout''), [Invoked, Slept 2000, Invoked, Slept 4000, Invoked],
         new_scheduler\<lparr>logs := L\<rparr>)"
  using withRetry_exhausts_attempts[where msg = "\<lambda>h. ''timeout''" and st = new_scheduler and n = 3
      and sc = quiet and label = "''Verify A''" and tr = "[]"]
  by (simp add: backoff_events_3 nonRetryable_def) (simp add: new_scheduler_def)



section \<open>The worker pool\<close>

lemma slice_chunk:
  assumes "0 \<le> i" "i < int (length arr)" "1 \<le> sz"
  shows "slice arr i (i + sz) = take (nat sz) (drop (nat i) arr)"
proof (cases "i + sz \<le> int (length arr)")
  case True
  then have "nat (i + sz - i) = nat sz" by simp
  then show ?thesis using assms True by (simp add: slice_def Let_def min_def)
next
  case False
  then have "length (drop (nat i) arr) \<le> nat sz" "length (drop (nat i) arr) \<le> nat (int (length arr) - i)"
    using assms by auto
  then have "take (nat sz) (drop (nat i) arr) = drop (nat i) arr"
       "take (nat (int (length arr) - i)) (drop (nat i) arr) = drop (nat i) arr"
    by simp_all
  then show ?thesis using assms False by (simp add: slice_def Let_def min_def)
qed

lemma chunkArray_loop_partitions:
  assumes "1 \<le> sz"
  shows "0 \<le> i \<Longrightarrow>
         \<exists>cs. chunkArray_loop arr sz i chunks = Some (chunks @ cs) \<and>
              concat cs = drop (nat i) arr \<and>
              (\<forall>c \<in> set cs. c \<noteq> [] \<and> int (length c) \<le> sz)"
proof (induction "length arr - nat i" arbitrary: i chunks rule: less_induct)
  case less
  show ?case
  proof (cases "i < int (length arr)")
    case False
    then have "chunkArray_loop arr sz i chunks = Some chunks"
      by (subst chunkArray_loop.simps) simp
    moreover have "drop (nat i) arr = []" using False less.prems by simp
    ultimately show ?thesis by simp
  next
    case True
    let ?c = "take (nat sz) (drop (nat i) arr)"
    have sl: "slice arr i (i + sz) = ?c" using slice_chunk[OF less.prems True assms] .
    have step: "chunkArray_loop arr sz i chunks = chunkArray_loop arr sz (i + sz) (chunks @ [?c])"
      using True sl by (subst chunkArray_loop.simps) simp
    have dec: "length arr - nat (i + sz) < length arr - nat i"
      using True less.prems assms by linarith
    have nn: "0 \<le> i + sz" using less.prems assms by simp
    obtain cs where cs: "chunkArray_loop arr sz (i + sz) (chunks @ [?c]) = Some ((chunks @ [?c]) @ cs)"
        "concat cs = drop (nat (i + sz)) arr" "\<forall>c \<in> set cs. c \<noteq> [] \<and> int (length c) \<le> sz"
      using less.hyps[OF dec nn, of "chunks @ [?c]"] by blast
    have "nat (i + sz) = nat sz + nat i" using less.prems assms by linarith
    then have "drop (nat (i + sz)) arr = drop (nat sz) (drop (nat i) arr)" by simp
    moreover have "?c @ drop (nat sz) (drop (nat i) arr) = drop (nat i) arr"
      by (rule append_take_drop_id)
    ultimately have cc: "concat (?c # cs) = drop (nat i) arr" using cs(2) by (simp del: drop_drop)
    have ne: "?c \<noteq> []" using True less.prems assms by auto
    have le: "int (length ?c) \<le> sz" using assms by simp
    show ?thesis
      using step cs(1) cc ne le cs(3) by (intro exI[of _ "?c # cs"]) simp
  qed
qed

lemma allSettled_length: "length (fst (allSettled env ds s)) = length ds"
  by (induction ds arbitrary: s) (simp_all add: split_def)

lemma chunkArray_returns:
  assumes "1 \<le> c"
  shows "\<exists>chunks. chunkArray arr c = Some chunks \<and> concat chunks = arr \<and>
           (\<forall>chunk \<in> set chunks. chunk \<noteq> [] \<and> int (length chunk) \<le> c)"
  using chunkArray_loop_partitions[OF assms, of 0 arr "[]"]
  by (auto simp: chunkArray_def)



section \<open>Processing a student: what is preserved and how the counters add up\<close>

lemma steady_refl [simp]: "steady st st"
  by (simp add: steady_def)

lemma steady_trans: "steady a b \<Longrightarrow> steady b c \<Longrightarrow> steady a c"
  by (simp add: steady_def)

lemma log_fields [simp]:
  "config (snd (log env lvl msg dat s)) = config (snd s)"
  "isRunning (snd (log env lvl msg dat s)) = isRunning (snd s)"
  "shouldStop (snd (log env lvl msg dat s)) = shouldStop (snd s)"
  "currentRun (snd (log env lvl msg dat s)) = currentRun (snd s)"
  "runs (snd (log env lvl msg dat s)) = runs (snd s)"
  "maxRuns (snd (log env lvl msg dat s)) = maxRuns (snd s)"
  "cronJob (snd (log env lvl msg dat s)) = cronJob (snd s)"
  "studentResults (snd (log env lvl msg dat s)) = studentResults (snd s)"
  by (simp_all add: log_def Let_def split: prod.splits)

lemma log_steady [simp]: "steady (snd s) (snd (log env lvl msg dat s))"
  by (simp add: steady_def)

lemma log_eq:
  "log env lvl msg dat s = (fst s, (snd s)\<lparr>logs := logged env lvl msg dat s\<rparr>)"
  by (simp add: log_def logged_def Let_def split: prod.splits)

lemma log_steady_pair [simp]: "steady st (snd (log env lvl msg dat (w, st)))"
  using log_steady[of "(w, st)"] by simp

lemma withRetry_loop_rule:
  assumes fn: "\<And>w. I w \<Longrightarrow> I (snd (fn w))"
    and sl: "\<And>ms w. I w \<Longrightarrow> I (sleep env ms w)"
  shows "I w \<Longrightarrow>
         I (fst (snd (withRetry_loop env fn label attempt lastError (w, st)))) \<and>
         steady st (snd (snd (withRetry_loop env fn label attempt lastError (w, st)))) \<and>
         (lastError \<noteq> Undefined \<or> attempt \<le> retryAttempts (config st) \<longrightarrow>
            fst (withRetry_loop env fn label attempt lastError (w, st)) \<noteq> Inl Undefined)"
proof (induction "nat (retryAttempts (config st) + 1 - attempt)" arbitrary: attempt lastError w st)
  case 0
  then have "\<not> attempt \<le> retryAttempts (config st)" by simp
  then show ?case using 0 by (subst (1 2 3) withRetry_loop.simps) (simp add: typeError_def)
next
  case (Suc k)
  then have le: "attempt \<le> retryAttempts (config st)" by simp
  obtain x y where xy: "fn w = (x, y)" by (cases "fn w")
  have Iy: "I y" using fn[OF Suc.prems] xy by simp
  show ?case
  proof (cases x)
    case (Inr v)
    then show ?thesis using le xy Iy by (subst (1 2 3) withRetry_loop.simps) (simp add: typeError_def)
  next
    case (Inl e)
    show ?thesis
    proof (cases e)
      case Undefined
      then show ?thesis using le xy Iy Inl by (subst (1 2 3) withRetry_loop.simps) (simp add: typeError_def)
    next
      case (Error m)
      show ?thesis
      proof (cases "nonRetryable m")
        case True
        then show ?thesis using le xy Iy Inl Error by (subst (1 2 3) withRetry_loop.simps) (simp add: typeError_def)
      next
        case False
        show ?thesis
        proof (cases "attempt < retryAttempts (config st)")
          case False
          have k: "k = nat (retryAttempts (config st) + 1 - (attempt + 1))" using Suc.hyps(2) by simp
          have eq: "withRetry_loop env fn label attempt lastError (w, st) =
                    withRetry_loop env fn label (attempt + 1) (Error m) (y, st)"
            using le xy Inl Error \<open>\<not> nonRetryable m\<close> False by (subst withRetry_loop.simps) simp
          show ?thesis unfolding eq using Suc.hyps(1)[OF k Iy, of "Error m"] by simp
        next
          case True
          let ?delay = "retryDelayMs (config st) * 2 ^ nat (attempt - 1)"
          obtain w2 st2 where l: "log env ''warn''
                       (label @ '' failed (attempt '' @ show_int attempt @ ''/'' @
                        show_int (retryAttempts (config st)) @ ''), retrying in '' @
                        show_int ?delay @ ''ms: '' @ m) None (y, st) = (w2, st2)"
            by (cases "log env ''warn''
                       (label @ '' failed (attempt '' @ show_int attempt @ ''/'' @
                        show_int (retryAttempts (config st)) @ ''), retrying in '' @
                        show_int ?delay @ ''ms: '' @ m) None (y, st)")
          have w2: "w2 = y" using l log_world[of env _ _ _ "(y, st)"] by (metis fst_conv)
          have st2: "steady st st2" using l log_steady[of "(y, st)" env] by (metis snd_conv)
          have k: "k = nat (retryAttempts (config st2) + 1 - (attempt + 1))"
            using Suc.hyps(2) st2 by (simp add: steady_def)
          have eq: "withRetry_loop env fn label attempt lastError (w, st) =
                    withRetry_loop env fn label (attempt + 1) (Error m) (sleep env ?delay w2, st2)"
            using le xy Inl Error \<open>\<not> nonRetryable m\<close> True l
            by (subst withRetry_loop.simps) (simp add: Let_def)
          have "I (sleep env ?delay w2)" using sl Iy w2 by simp
          from Suc.hyps(1)[OF k this, of "Error m"] st2
          show ?thesis unfolding eq by (auto intro: steady_trans)
        qed
      qed
    qed
  qed
qed

lemma preserved_True [simp]: "preserved env (\<lambda>w. True)"
  by (simp add: preserved_def)

lemma withRetry_rule:
  assumes "\<And>w. I w \<Longrightarrow> I (snd (fn w))" and "preserved env I" and "I w"
  shows "I (fst (snd (withRetry env fn label (w, st)))) \<and>
         steady st (snd (snd (withRetry env fn label (w, st)))) \<and>
         (1 \<le> retryAttempts (config st) \<longrightarrow> fst (withRetry env fn label (w, st)) \<noteq> Inl Undefined)"
  unfolding withRetry_def
  using withRetry_loop_rule[of I fn env w label 1 Undefined st] assms
  by (simp add: preserved_def)

lemma stopScheduler_rule:
  assumes "preserved env I" "I w"
  shows "I (fst (stopScheduler env (w, st))) \<and> steady st (snd (stopScheduler env (w, st)))"
  using assms by (simp add: stopScheduler_def preserved_def steady_def log_eq)

lemma resume_rule:
  assumes "preserved env I" "I w"
  shows "I (fst (resume env (w, st))) \<and> steady st (snd (resume env (w, st)))"
proof -
  obtain b w1 where sa: "stopArrives env w = (b, w1)" by (cases "stopArrives env w")
  have "I w1" using assms sa by (auto simp: preserved_def dest: spec[of _ w])
  then show ?thesis
    using sa stopScheduler_rule[OF assms(1), of w1 st] by (cases b) (simp_all add: resume_def)
qed

lemma verifyDocument_rule:
  assumes "\<And>url w. doc.file_url d = Some url \<Longrightarrow> has_file_url d \<Longrightarrow> I w \<Longrightarrow>
             I (snd (downloadAndVerify env d url w))"
    and "preserved env I" and "I w"
  shows "I (fst (snd (verifyDocument env d (w, st)))) \<and>
         steady st (snd (snd (verifyDocument env d (w, st)))) \<and>
         (1 \<le> retryAttempts (config st) \<longrightarrow> fst (verifyDocument env d (w, st)) \<noteq> Inl Undefined)"
proof (cases "doc.file_url d")
  case None
  then show ?thesis using assms(3) by (simp add: verifyDocument_def)
next
  case (Some url)
  show ?thesis
  proof (cases "has_file_url d")
    case False
    then show ?thesis using Some assms(3) by (simp add: verifyDocument_def)
  next
    case True
    have "\<And>w. I w \<Longrightarrow> I (snd (downloadAndVerify env d url w))" using assms(1) Some True by simp
    from withRetry_rule[of I "downloadAndVerify env d url", OF this assms(2,3)]
    show ?thesis using Some True by (simp add: verifyDocument_def)
  qed
qed

lemma serves_True [simp]: "serves env (\<lambda>w. True) d"
  by (simp add: serves_def)

lemma allSettled_rule:
  assumes "preserved env I"
  shows "\<forall>d \<in> set ds. serves env I d \<Longrightarrow> I w \<Longrightarrow>
         I (fst (snd (allSettled env ds (w, st)))) \<and>
         steady st (snd (snd (allSettled env ds (w, st))))"
proof (induction ds arbitrary: w st)
  case Nil
  then show ?case by simp
next
  case (Cons d ds)
  obtain r w1 st1 where v: "verifyDocument env d (w, st) = (r, w1, st1)"
    by (cases "verifyDocument env d (w, st)") auto
  have "serves env I d" using Cons.prems(1) by simp
  then have "I (fst (snd (verifyDocument env d (w, st)))) \<and>
        steady st (snd (snd (verifyDocument env d (w, st))))"
    using verifyDocument_rule[of d I env w st] assms Cons.prems(2) by (simp add: serves_def)
  then have 1: "I w1" "steady st st1" using v by simp_all
  have "I (fst (snd (allSettled env ds (w1, st1)))) \<and>
        steady st1 (snd (snd (allSettled env ds (w1, st1))))"
    using Cons.IH[OF _ 1(1)] Cons.prems(1) by simp
  then show ?case using v 1 by (auto simp: split_def intro: steady_trans)
qed

lemma mergeResult_state:
  "fst (snd (mergeResult env a d r acc)) = fst (snd acc) \<and>
   steady (snd (snd acc)) (snd (snd (mergeResult env a d r acc)))"
proof -
  obtain sr ups w st where acc: "acc = ((sr, ups), (w, st))" by (cases acc) auto
  show ?thesis unfolding acc
    by (cases r) (simp_all add: mergeResult_def Let_def log_eq steady_def)
qed

lemma mergeResult_counted:
  "counted (fst (fst (mergeResult env a d r acc))) = Suc (counted (fst (fst acc))) \<and>
   totalDocs (fst (fst (mergeResult env a d r acc))) = totalDocs (fst (fst acc)) \<and>
   student_result.status (fst (fst (mergeResult env a d r acc))) = student_result.status (fst (fst acc))"
proof -
  obtain sr ups w st where acc: "acc = ((sr, ups), (w, st))" by (cases acc) auto
  show ?thesis unfolding acc
    by (cases r) (simp_all add: mergeResult_def Let_def counted_def)
qed

lemma merge_fold:
  "fst (snd (foldl (\<lambda>acc (d, r). mergeResult env a d r acc) acc ps)) = fst (snd acc) \<and>
   steady (snd (snd acc)) (snd (snd (foldl (\<lambda>acc (d, r). mergeResult env a d r acc) acc ps))) \<and>
   counted (fst (fst (foldl (\<lambda>acc (d, r). mergeResult env a d r acc) acc ps))) =
     counted (fst (fst acc)) + length ps \<and>
   totalDocs (fst (fst (foldl (\<lambda>acc (d, r). mergeResult env a d r acc) acc ps))) =
     totalDocs (fst (fst acc)) \<and>
   student_result.status (fst (fst (foldl (\<lambda>acc (d, r). mergeResult env a d r acc) acc ps))) =
     student_result.status (fst (fst acc))"
proof (induction ps arbitrary: acc)
  case Nil
  then show ?case by simp
next
  case (Cons p ps)
  obtain d r where p: "p = (d, r)" by (cases p)
  show ?case
    using Cons.IH[of "mergeResult env a d r acc"] mergeResult_state[of env a d r acc]
      mergeResult_counted[of env a d r acc] p
    by (simp add: steady_def)
qed

lemma mergeChunk_rule:
  assumes "length results = length chunk"
  shows "fst (snd (mergeChunk env a chunk results acc)) = fst (snd acc) \<and>
   steady (snd (snd acc)) (snd (snd (mergeChunk env a chunk results acc))) \<and>
   counted (fst (fst (mergeChunk env a chunk results acc))) = counted (fst (fst acc)) + length chunk \<and>
   totalDocs (fst (fst (mergeChunk env a chunk results acc))) = totalDocs (fst (fst acc)) \<and>
   student_result.status (fst (fst (mergeChunk env a chunk results acc))) =
     student_result.status (fst (fst acc))"
  unfolding mergeChunk_def using merge_fold[of env a acc "zip chunk results"] assms by simp

lemma processChunks_rule:
  assumes "preserved env I"
  shows "\<forall>d \<in> set (concat chunks). serves env I d \<Longrightarrow> I (fst (snd acc)) \<Longrightarrow>
         I (fst (snd (processChunks env a chunks acc))) \<and>
         steady (snd (snd acc)) (snd (snd (processChunks env a chunks acc))) \<and>
         counted (fst (fst (processChunks env a chunks acc))) \<le>
           counted (fst (fst acc)) + length (concat chunks) \<and>
         (\<not> shouldStop (snd (snd (processChunks env a chunks acc))) \<longrightarrow>
            counted (fst (fst (processChunks env a chunks acc))) =
              counted (fst (fst acc)) + length (concat chunks)) \<and>
         totalDocs (fst (fst (processChunks env a chunks acc))) = totalDocs (fst (fst acc)) \<and>
         student_result.status (fst (fst (processChunks env a chunks acc))) =
           student_result.status (fst (fst acc))"
proof (induction chunks arbitrary: acc)
  case Nil
  then show ?case by simp
next
  case (Cons chunk rest)
  obtain res w st where acc: "acc = (res, (w, st))" by (cases acc) auto
  have Iw: "I w" using Cons.prems(2) acc by simp
  show ?case
  proof (cases "shouldStop st")
    case True
    then show ?thesis using acc Iw by (simp add: log_eq steady_def)
  next
    case False
    obtain results w1 st1 where al: "allSettled env chunk (w, st) = (results, (w1, st1))"
      by (cases "allSettled env chunk (w, st)") auto
    have len: "length results = length chunk"
      using allSettled_length[of env chunk "(w, st)"] al by simp
    have a1: "I w1" "steady st st1"
      using allSettled_rule[OF assms, of chunk w st] Cons.prems(1) Iw al by simp_all
    obtain w1' st1' where r1: "resume env (w1, st1) = (w1', st1')" by (cases "resume env (w1, st1)")
    have a1': "I w1'" "steady st1 st1'"
      using resume_rule[OF assms a1(1), of st1] r1 by simp_all
    obtain res2 w2 st2 where mc: "mergeChunk env a chunk results (res, (w1', st1')) = (res2, (w2, st2))"
      by (cases "mergeChunk env a chunk results (res, (w1', st1'))") auto
    have a2: "w2 = w1'" "steady st1' st2" "counted (fst res2) = counted (fst res) + length chunk"
        "totalDocs (fst res2) = totalDocs (fst res)"
        "student_result.status (fst res2) = student_result.status (fst res)"
      using mergeChunk_rule[OF len, of env a "(res, (w1', st1'))"] mc by simp_all
    define s3 where "s3 = (if rest \<noteq> []
                       then resume env (sleep env (delayBetweenDocsMs (config st2)) w2, st2)
                       else (w2, st2))"
    have "I (sleep env (delayBetweenDocsMs (config st2)) w2)"
      using assms a1'(1) a2(1) by (simp add: preserved_def)
    then have a3: "I (fst s3)" "steady st2 (snd s3)"
      using resume_rule[OF assms, of "sleep env (delayBetweenDocsMs (config st2)) w2" st2] a1'(1) a2(1)
      by (simp_all add: s3_def)
    have step: "processChunks env a (chunk # rest) acc = processChunks env a rest (res2, s3)"
      using acc False al r1 mc by (simp add: s3_def)
    have ih: "I (fst (snd (processChunks env a rest (res2, s3)))) \<and>
         steady (snd s3) (snd (snd (processChunks env a rest (res2, s3)))) \<and>
         counted (fst (fst (processChunks env a rest (res2, s3)))) \<le>
           counted (fst res2) + length (concat rest) \<and>
         (\<not> shouldStop (snd (snd (processChunks env a rest (res2, s3)))) \<longrightarrow>
            counted (fst (fst (processChunks env a rest (res2, s3)))) =
              counted (fst res2) + length (concat rest)) \<and>
         totalDocs (fst (fst (processChunks env a rest (res2, s3)))) = totalDocs (fst res2) \<and>
         student_result.status (fst (fst (processChunks env a rest (res2, s3)))) =
           student_result.status (fst res2)"
      using Cons.IH[of "(res2, s3)"] Cons.prems(1) a3(1) by simp
    have st: "steady st (snd s3)"
      using a1(2) a1'(2) a2(2) a3(2) by (blast intro: steady_trans)
    show ?thesis
      unfolding step using ih a2 st acc by (auto intro: steady_trans)
  qed
qed

lemma postStatusUpdates_rule:
  assumes "preserved env I" "I (fst s)"
  shows "I (fst (snd (postStatusUpdates env a ups s))) \<and>
         steady (snd s) (snd (snd (postStatusUpdates env a ups s))) \<and>
         (1 \<le> retryAttempts (config (snd s)) \<longrightarrow> fst (postStatusUpdates env a ups s) = None)"
proof (cases "length ups > 0 \<and> \<not> shouldStop (snd s)")
  case False
  then show ?thesis using assms by (auto simp: postStatusUpdates_def)
next
  case True
  obtain w st where s: "s = (w, st)" by (cases s)
  obtain r w1 st1 where wr: "withRetry env (updateDocumentStatus env a ups) (''Update status for '' @ a) (w, st) = (r, (w1, st1))"
    by (cases "withRetry env (updateDocumentStatus env a ups) (''Update status for '' @ a) (w, st)") auto
  have "\<And>w. I w \<Longrightarrow> I (snd (updateDocumentStatus env a ups w))"
    using assms(1) by (simp add: preserved_def)
  from withRetry_rule[of I "updateDocumentStatus env a ups" env w "''Update status for '' @ a" st, OF this assms(1)]
  have a1: "I w1" "steady st st1" "1 \<le> retryAttempts (config st) \<longrightarrow> r \<noteq> Inl Undefined"
    using assms(2) s wr by simp_all
  obtain w2 st2 where r2: "resume env (w1, st1) = (w2, st2)" by (cases "resume env (w1, st1)")
  have a2: "I w2" "steady st1 st2" using resume_rule[OF assms(1) a1(1), of st1] r2 by simp_all
  have st: "steady st st2" using a1(2) a2(2) by (rule steady_trans)
  show ?thesis
  proof (cases r)
    case (Inr u)
    then show ?thesis using True s wr r2 a2 st
      by (simp add: postStatusUpdates_def log_eq steady_def)
  next
    case (Inl e)
    then show ?thesis using True s wr r2 a2 st a1(3)
      by (cases e) (simp_all add: postStatusUpdates_def log_eq steady_def)
  qed
qed

lemma setStudentResult_rule [simp]:
  "fst (setStudentResult a sr s) = fst s"
  "steady st (snd (setStudentResult a sr (w, st)))"
  "map_of (studentResults (snd (setStudentResult a sr s))) a = Some sr"
  by (simp_all add: setStudentResult_def steady_def update_conv')

lemma processDocuments_rule:
  assumes pres: "preserved env I" and Iw: "I w"
    and srv: "\<forall>d \<in> set allDocs. has_file_url d \<longrightarrow> serves env I d"
    and conc: "1 \<le> concurrency (config st)"
    and retry: "1 \<le> retryAttempts (config st)"
  shows "\<exists>t w' st'. processDocuments env a sr allDocs (w, st) = Some (t, (w', st')) \<and>
           I w' \<and> steady st st' \<and> \<not> threw t \<and>
           student_result.status (result_of t) \<in> {''skipped'', ''partial'', ''completed''} \<and>
           counted (result_of t) \<le> counted sr + totalDocs (result_of t) \<and>
           (\<not> shouldStop st' \<longrightarrow> counted (result_of t) = counted sr + totalDocs (result_of t))"
proof -
  define up where "up = (if skipAlreadyVerified (config st)
                          then filter (\<lambda>d. doc.verify_status d \<noteq> ''2'') (filter has_file_url allDocs)
                          else filter has_file_url allDocs)"
  define sr3 where "sr3 = sr\<lparr>allDocuments := map allDocEntry allDocs,
      uploaded := length (filter has_file_url allDocs), totalDocs := length up\<rparr>"
  have pd: "processDocuments env a sr allDocs (w, st) =
     (if length up = 0 then
        Some (Returned (sr3\<lparr>student_result.status := ''skipped'',
                         student_result.endTime := Some (now env w)\<rparr>),
             setStudentResult a (sr3\<lparr>student_result.status := ''skipped'',
                         student_result.endTime := Some (now env w)\<rparr>)
               (log env ''info'' (''Student '' @ a @ '': No documents to verify'') None (w, st)))
      else
        (case chunkArray up (concurrency (config st)) of
           None \<Rightarrow> None
         | Some chunks \<Rightarrow>
             (case processChunks env a chunks ((sr3, []), (w, st)) of
                ((sr5, statusUpdates), s1) \<Rightarrow>
                  (case postStatusUpdates env a statusUpdates s1 of
                     (Some err, s2) \<Rightarrow> Some (Threw err sr5, s2)
                   | (None, s2) \<Rightarrow>
                       Some (Finished
                               (sr5\<lparr>student_result.status :=
                                      (if student_result.errors sr5 > 0 then ''partial''
                                       else ''completed'')\<rparr>),
                             s2)))))"
    unfolding processDocuments_def Let_def sr3_def up_def fst_conv snd_conv ..
  have c3: "counted sr3 = counted sr" "totalDocs sr3 = length up"
    by (simp_all add: sr3_def counted_def)
  show ?thesis
  proof (cases "length up = 0")
    case True
    then have "processDocuments env a sr allDocs (w, st) =
       Some (Returned (sr3\<lparr>student_result.status := ''skipped'',
                         student_result.endTime := Some (now env w)\<rparr>),
             setStudentResult a (sr3\<lparr>student_result.status := ''skipped'',
                         student_result.endTime := Some (now env w)\<rparr>)
               (log env ''info'' (''Student '' @ a @ '': No documents to verify'') None (w, st)))"
      by (simp add: pd)
    then show ?thesis using Iw c3 True
      by (simp add: log_eq setStudentResult_def steady_def threw_def result_of_def counted_def)
  next
    case False
    obtain chunks where ch: "chunkArray up (concurrency (config st)) = Some chunks" "concat chunks = up"
      using chunkArray_returns[OF conc, of up] by blast
    obtain sr5 ups w1 st1 where pc: "processChunks env a chunks ((sr3, []), (w, st)) = ((sr5, ups), (w1, st1))"
      by (cases "processChunks env a chunks ((sr3, []), (w, st))") auto
    have "\<forall>d \<in> set (concat chunks). serves env I d"
      using srv ch(2) by (auto simp: up_def split: if_splits)
    from processChunks_rule[OF pres this, of "((sr3, []), (w, st))" a] Iw pc c3 ch(2)
    have a1: "I w1" "steady st st1" "counted sr5 \<le> counted sr + length up"
        "\<not> shouldStop st1 \<longrightarrow> counted sr5 = counted sr + length up"
        "totalDocs sr5 = length up"
      by simp_all
    obtain e w2 st2 where ps: "postStatusUpdates env a ups (w1, st1) = (e, (w2, st2))"
      by (cases "postStatusUpdates env a ups (w1, st1)") auto
    have "1 \<le> retryAttempts (config st1)" using retry a1(2) by (simp add: steady_def)
    with postStatusUpdates_rule[OF pres, of "(w1, st1)" a ups] a1(1) ps
    have a2: "I w2" "steady st1 st2" "e = None" by simp_all
    have "processDocuments env a sr allDocs (w, st) =
       Some (Finished (sr5\<lparr>student_result.status :=
                (if student_result.errors sr5 > 0 then ''partial'' else ''completed'')\<rparr>), (w2, st2))"
      using False ch(1) pc ps a2(3)
      by (simp add: pd)
    moreover have "steady st st2" using a1(2) a2(2) by (rule steady_trans)
    moreover have "shouldStop st1 \<longrightarrow> shouldStop st2" using a2(2) by (simp add: steady_def)
    ultimately show ?thesis using a1 a2
      by (auto simp: threw_def result_of_def counted_def)
  qed
qed

lemma noDocumentList_rule:
  "fst (noDocumentList env a sr (w, st)) =
     Returned (sr\<lparr>student_result.status := ''skipped'',
                  student_result.endTime := Some (now env w)\<rparr>) \<and>
   fst (snd (noDocumentList env a sr (w, st))) = w \<and>
   steady st (snd (snd (noDocumentList env a sr (w, st))))"
  by (simp add: noDocumentList_def Let_def log_eq setStudentResult_def steady_def)

lemma processStudent_try_rule:
  assumes pres: "preserved env I" and Iw: "I w"
    and srv: "\<forall>d. has_file_url d \<longrightarrow> serves env I d"
    and conc: "1 \<le> concurrency (config st)"
    and retry: "1 \<le> retryAttempts (config st)"
    and zero: "counted sr = 0" "totalDocs sr = 0"
  shows "\<exists>t w' st'. processStudent_try env a sr (w, st) = Some (t, (w', st')) \<and>
           I w' \<and> steady st st' \<and> t \<noteq> Threw Undefined sr \<and>
           (threw t \<longrightarrow> (\<exists>e. t = Threw e sr)) \<and>
           (\<not> threw t \<longrightarrow>
              student_result.status (result_of t) \<in> {''skipped'', ''partial'', ''completed''} \<and>
              counted (result_of t) \<le> totalDocs (result_of t) \<and>
              (\<not> shouldStop st' \<longrightarrow> counted (result_of t) = totalDocs (result_of t)))"
proof -
  obtain r w1 st1 where wr: "withRetry env (getDocumentList env a) (''Fetch docs for '' @ a) (w, st) = (r, (w1, st1))"
    by (cases "withRetry env (getDocumentList env a) (''Fetch docs for '' @ a) (w, st)") auto
  have "\<And>w. I w \<Longrightarrow> I (snd (getDocumentList env a w))"
    using pres by (simp add: preserved_def)
  from withRetry_rule[of I "getDocumentList env a" env w "''Fetch docs for '' @ a" st, OF this pres Iw]
  have a1: "I w1" "steady st st1" "r \<noteq> Inl Undefined"
    using wr retry by simp_all
  obtain w2 st2 where r2: "resume env (w1, st1) = (w2, st2)" by (cases "resume env (w1, st1)")
  have a2: "I w2" "steady st1 st2" using resume_rule[OF pres a1(1), of st1] r2 by simp_all
  have st12: "steady st st2" using a1(2) a2(2) by (rule steady_trans)
  show ?thesis
  proof (cases r)
    case (Inl e)
    then have "processStudent_try env a sr (w, st) = Some (Threw e sr, (w2, st2))"
      using wr r2 by (simp add: processStudent_try_def)
    then show ?thesis using a2 st12 a1(3) Inl by (simp add: threw_def)
  next
    case (Inr resp)
    have skip: "?thesis" if "processStudent_try env a sr (w, st) = Some (noDocumentList env a sr (w2, st2))"
    proof -
      obtain t w3 st3 where nd: "noDocumentList env a sr (w2, st2) = (t, (w3, st3))"
        by (cases "noDocumentList env a sr (w2, st2)") auto
      have "t = Returned (sr\<lparr>student_result.status := ''skipped'',
                  student_result.endTime := Some (now env w2)\<rparr>)" "w3 = w2" "steady st2 st3"
        using noDocumentList_rule[of env a sr w2 st2] nd by simp_all
      then show ?thesis using that nd a2 st12 zero
        by (auto simp: threw_def result_of_def counted_def intro: steady_trans)
    qed
    show ?thesis
    proof (cases "document_status resp")
      case None
      then show ?thesis using skip wr r2 Inr by (simp add: processStudent_try_def)
    next
      case (Some allDocs)
      show ?thesis
      proof (cases "doc_list_response.status resp \<noteq> 1")
        case True
        then show ?thesis using skip wr r2 Inr Some by (simp add: processStudent_try_def)
      next
        case False
        then have eq: "processStudent_try env a sr (w, st) = processDocuments env a sr allDocs (w2, st2)"
          using wr r2 Inr Some by (simp add: processStudent_try_def)
        have c2: "1 \<le> concurrency (config st2)" "1 \<le> retryAttempts (config st2)"
          using conc retry st12 by (simp_all add: steady_def)
        from processDocuments_rule[OF pres a2(1) _ c2, of allDocs a sr] srv
        obtain t w' st' where pd: "processDocuments env a sr allDocs (w2, st2) = Some (t, (w', st'))"
            "I w'" "steady st2 st'" "\<not> threw t"
            "student_result.status (result_of t) \<in> {''skipped'', ''partial'', ''completed''}"
            "counted (result_of t) \<le> counted sr + totalDocs (result_of t)"
            "\<not> shouldStop st' \<longrightarrow> counted (result_of t) = counted sr + totalDocs (result_of t)"
          by blast
        have "steady st st'" using st12 pd(3) by (rule steady_trans)
        moreover have "t \<noteq> Threw Undefined sr" using pd(4) by (auto simp: threw_def)
        ultimately show ?thesis unfolding eq using pd zero by simp
      qed
    qed
  qed
qed

lemma storeResult_rule:
  "fst (storeResult env a sr (w, st)) = Inr (sr\<lparr>student_result.endTime := Some (now env w)\<rparr>) \<and>
   fst (snd (storeResult env a sr (w, st))) = w \<and>
   steady st (snd (snd (storeResult env a sr (w, st))))"
  by (simp add: storeResult_def Let_def setStudentResult_def steady_def)

lemma processStudent_rule:
  assumes pres: "preserved env I" and Iw: "I w"
    and srv: "\<forall>d. has_file_url d \<longrightarrow> serves env I d"
    and conc: "1 \<le> concurrency (config st)"
    and retry: "1 \<le> retryAttempts (config st)"
  shows "\<exists>sr w' st'. processStudent env a n (w, st) = Some (Inr sr, (w', st')) \<and>
           I w' \<and> steady st st' \<and>
           student_result.status sr \<in> {''skipped'', ''partial'', ''completed'', ''error''} \<and>
           counted sr \<le> totalDocs sr \<and>
           (\<not> shouldStop st' \<longrightarrow> counted sr = totalDocs sr)"
proof -
  let ?sr0 = "freshResult env a n w"
  have ps: "processStudent env a n (w, st) =
     (case processStudent_try env a ?sr0 (w, st) of
        None \<Rightarrow> None
      | Some (Returned sr, s1) \<Rightarrow> Some (Inr sr, s1)
      | Some (Finished sr, s1) \<Rightarrow> Some (storeResult env a sr s1)
      | Some (Threw Undefined sr, s1) \<Rightarrow> Some (Inl typeError, s1)
      | Some (Threw (Error m) sr, s1) \<Rightarrow>
          Some (storeResult env a (sr\<lparr>student_result.status := ''error''\<rparr>)
                  (log env ''error'' (''Student '' @ a @ '': Processing failed'')
                     (Some [(''error'', m)]) s1)))"
    unfolding processStudent_def fst_conv ..
  have zero: "counted ?sr0 = 0" "totalDocs ?sr0 = 0"
    by (simp_all add: freshResult_def counted_def)
  from processStudent_try_rule[OF pres Iw srv conc retry zero, of a]
  obtain t w1 st1 where tr: "processStudent_try env a ?sr0 (w, st) = Some (t, (w1, st1))"
      "I w1" "steady st st1" "t \<noteq> Threw Undefined ?sr0" "threw t \<longrightarrow> (\<exists>e. t = Threw e ?sr0)"
      "\<not> threw t \<longrightarrow>
              student_result.status (result_of t) \<in> {''skipped'', ''partial'', ''completed''} \<and>
              counted (result_of t) \<le> totalDocs (result_of t) \<and>
              (\<not> shouldStop st1 \<longrightarrow> counted (result_of t) = totalDocs (result_of t))"
    by blast
  show ?thesis
  proof (cases t)
    case (Returned sr)
    then show ?thesis using ps tr by (auto simp: threw_def result_of_def)
  next
    case (Finished sr)
    obtain r w2 st2 where sr2: "storeResult env a sr (w1, st1) = (r, (w2, st2))"
      by (cases "storeResult env a sr (w1, st1)") auto
    have a2: "r = Inr (sr\<lparr>student_result.endTime := Some (now env w1)\<rparr>)" "w2 = w1" "steady st1 st2"
      using storeResult_rule[of env a sr w1 st1] sr2 by simp_all
    have "steady st st2" using tr(3) a2(3) by (rule steady_trans)
    moreover have "shouldStop st1 \<longrightarrow> shouldStop st2" using a2(3) by (simp add: steady_def)
    ultimately show ?thesis using ps tr Finished sr2 a2
      by (auto simp: threw_def result_of_def counted_def)
  next
    case (Threw e sr)
    then have sr: "sr = ?sr0" using tr(5) by (auto simp: threw_def)
    then obtain m where e: "e = Error m" using tr(4) Threw by (cases e) auto
    obtain w2 st2 where l: "log env ''error'' (''Student '' @ a @ '': Processing failed'')
                     (Some [(''error'', m)]) (w1, st1) = (w2, st2)"
      by (cases "log env ''error'' (''Student '' @ a @ '': Processing failed'')
                     (Some [(''error'', m)]) (w1, st1)")
    have a2: "w2 = w1" "steady st1 st2" using l by (auto simp: log_eq steady_def)
    obtain r w3 st3 where sr3: "storeResult env a (sr\<lparr>student_result.status := ''error''\<rparr>) (w2, st2) = (r, (w3, st3))"
      by (cases "storeResult env a (sr\<lparr>student_result.status := ''error''\<rparr>) (w2, st2)") auto
    have a3: "r = Inr (sr\<lparr>student_result.status := ''error'', student_result.endTime := Some (now env w2)\<rparr>)"
        "w3 = w2" "steady st2 st3"
      using storeResult_rule[of env a "sr\<lparr>student_result.status := ''error''\<rparr>" w2 st2] sr3 by simp_all
    have "steady st st3" using tr(3) a2(2) a3(3) by (blast intro: steady_trans)
    then show ?thesis using ps tr(1,2) Threw e l sr3 a2 a3 sr zero
      by (simp add: counted_def)
  qed
qed

lemma finishRun_fields:
  "isRunning (finishRun st) = False"
  "currentRun (finishRun st) = currentRun st"
  by (simp_all add: finishRun_def Let_def split: option.splits)

lemma finishRun_runs:
  assumes "currentRun st = Some r" "0 < maxRuns st"
  shows "\<exists>k. runs (finishRun st) = drop k (runs st) @ [r\<lparr>students := None\<rparr>]"
proof -
  obtain n where n: "maxRuns st = int n" "0 < n"
    using assms(2) by (metis nat_0_le less_imp_le zero_less_nat_eq)
  let ?pushed = "runs st @ [r\<lparr>students := None\<rparr>]"
  have "runs (finishRun st) = (if int (length ?pushed) > maxRuns st
                                then slice_from ?pushed (- maxRuns st) else ?pushed)"
    using assms(1) by (simp add: finishRun_def Let_def)
  also have "\<dots> = drop (length ?pushed - n) ?pushed"
    using n slice_from_neg[OF n(2), of ?pushed] by auto
  also have "\<dots> = drop (length ?pushed - n) (runs st) @ [r\<lparr>students := None\<rparr>]"
    using n(2) by simp
  finally show ?thesis by blast
qed

lemma single_run:
  assumes idle: "\<not> isRunning st"
    and conc: "1 \<le> concurrency (config st)"
    and retry: "1 \<le> retryAttempts (config st)"
  shows "\<exists>sr w' st1.
           verifySingleStudent env a (w, st) =
             Some (Inr (Some ((tallySingle sr (newRun env w 1))
                                \<lparr>run.status := ''completed'', run.endTime := Some (now env w')\<rparr>)),
                   (w', finishRun (st1\<lparr>currentRun :=
                          Some ((tallySingle sr (newRun env w 1))
                                  \<lparr>run.status := ''completed'', run.endTime := Some (now env w')\<rparr>)\<rparr>))) \<and>
           steady (st\<lparr>isRunning := True, shouldStop := False,
                      currentRun := Some (newRun env w 1)\<rparr>) st1 \<and>
           student_result.status sr \<in> {''skipped'', ''partial'', ''completed'', ''error''}"
proof -
  let ?st0 = "st\<lparr>isRunning := True, shouldStop := False, currentRun := Some (newRun env w 1)\<rparr>"
  obtain w0 st0 where l: "log env ''info''
       (''========== SINGLE STUDENT VERIFICATION: '' @ a @ '' =========='') None (w, ?st0) = (w0, st0)"
    by (cases "log env ''info''
       (''========== SINGLE STUDENT VERIFICATION: '' @ a @ '' =========='') None (w, ?st0)")
  have s0: "steady ?st0 st0" using l by (auto simp: log_eq steady_def)
  have c0: "1 \<le> concurrency (config st0)" "1 \<le> retryAttempts (config st0)"
    using s0 conc retry by (simp_all add: steady_def)
  from processStudent_rule[of env "\<lambda>w. True" w0 st0 a a, OF _ _ _ c0]
  obtain sr w1 st1 where ps: "processStudent env a a (w0, st0) = Some (Inr sr, (w1, st1))"
      "steady st0 st1"
      "student_result.status sr \<in> {''skipped'', ''partial'', ''completed'', ''error''}"
    by auto
  have s1: "steady ?st0 st1" using s0 ps(2) by (rule steady_trans)
  then have cur: "currentRun st1 = Some (newRun env w 1)"
    by (simp add: steady_def)
  define r where "r = (tallySingle sr (newRun env w 1))\<lparr>run.status := ''completed'', run.endTime := Some (now env w1)\<rparr>"
  have on: "onRun (\<lambda>r. r\<lparr>run.status := ''completed'', run.endTime := Some (now env (fst (w1, st1)))\<rparr>)
              (onRun (tallySingle sr) (w1, st1)) = (w1, st1\<lparr>currentRun := Some r\<rparr>)"
    using cur by (simp add: onRun_def r_def)
  have f: "currentRun (finishRun (st1\<lparr>currentRun := Some r\<rparr>)) = Some r"
    by (simp add: finishRun_fields)
  have v: "verifySingleStudent env a (w, st) = Some (Inr (Some r), (w1, finishRun (st1\<lparr>currentRun := Some r\<rparr>)))"
    using idle l ps(1) on f by (simp add: verifySingleStudent_def)
  show ?thesis
    using v s1 ps(3) unfolding r_def
    by (intro exI[of _ sr] exI[of _ w1] exI[of _ st1]) simp
qed

lemma tallySingle_newRun:
  "students (tallySingle sr (newRun env w n)) = Some [sr]"
  "processed (tallySingle sr (newRun env w n)) = 1"
  "run_id (tallySingle sr (newRun env w n)) = radix_string 36 (now env w)"
  "run.skipped (tallySingle sr (newRun env w n)) =
     (if student_result.status sr = ''skipped'' then 1 else 0)"
  "completed (tallySingle sr (newRun env w n)) =
     (if student_result.status sr = ''completed'' \<or> student_result.status sr = ''partial'' then 1 else 0)"
  by (simp_all add: tallySingle_def newRun_def Let_def)

lemma tallySingle_errors:
  assumes "student_result.status sr \<in> {''skipped'', ''partial'', ''completed'', ''error''}"
  shows "run.errors (tallySingle sr (newRun env w n)) =
         (if student_result.status sr = ''error'' then 1 else 0)"
proof -
  have "run.errors (tallySingle sr (newRun env w n)) =
     (if student_result.status sr = ''completed'' \<or> student_result.status sr = ''partial'' \<or>
         student_result.status sr = ''skipped'' then 0 else 1)"
    by (simp add: tallySingle_def newRun_def Let_def)
  then show ?thesis using assms by auto
qed



text \<open>
  C7. While a run is active, \<open>runBatch\<close> returns \<open>null\<close>, makes no external call and changes
  nothing of the scheduler but its log (one warning); \<open>verifySingleStudent\<close> throws the
  busy error and changes nothing at all.
\<close>

theorem busy_scheduler_rejects_starts:
  assumes "isRunning st"
  shows "runBatch env (w, st) =
           Some (Inr None,
                 (w, st\<lparr>logs := logs (snd (log env ''warn'' ''Batch already running, skipping''
                                             None (w, st)))\<rparr>)) \<and>
         verifySingleStudent env a (w, st) =
           Some (Inl (Error ''A batch job is currently running. Wait for it to finish or stop it first.''),
                 (w, st))"
proof -
  have "runBatch env (w, st) =
           Some (Inr None, log env ''warn'' ''Batch already running, skipping'' None (w, st))"
    unfolding runBatch_def using assms by (simp only: prod.case if_True)
  moreover have "log env ''warn'' ''Batch already running, skipping'' None (w, st) =
      (w, st\<lparr>logs := logs (snd (log env ''warn'' ''Batch already running, skipping'' None (w, st)))\<rparr>)"
    by (rule log_pair)
  moreover have "verifySingleStudent env a (w, st) =
           Some (Inl (Error ''A batch job is currently running. Wait for it to finish or stop it first.''),
                 (w, st))"
    unfolding verifySingleStudent_def using assms by (simp only: prod.case if_True)
  ultimately show ?thesis by (simp only:)
qed

theorem busy_scheduler_rejects_starts_witness:
  "runBatch (recording quiet) ([], new_scheduler\<lparr>isRunning := True\<rparr>) =
     Some (Inr None,
           ([], new_scheduler\<lparr>isRunning := True,
                  logs := logs (snd (log (recording quiet) ''warn'' ''Batch already running, skipping''
                                      None ([], new_scheduler\<lparr>isRunning := True\<rparr>)))\<rparr>)) \<and>
   verifySingleStudent (recording quiet) ''S1'' ([], new_scheduler\<lparr>isRunning := True\<rparr>) =
     Some (Inl (Error ''A batch job is currently running. Wait for it to finish or stop it first.''),
           ([], new_scheduler\<lparr>isRunning := True\<rparr>))"
proof -
  have "isRunning (new_scheduler\<lparr>isRunning := True\<rparr>)" by simp
  then show ?thesis by (rule busy_scheduler_rejects_starts)
qed

section \<open>Student results, run detail and work items without a file\<close>

lemma scenario_run:
  "summary (processStudent (recording scenario) ''S1'' ''Asha'' ([], new_scheduler)) =
   Some ((2, 1, 1, 0, 0, ''completed''), 4, [Slept 2000, Slept 4000],
         [Some ''Verified'', Some ''reject'', None], [''Verified'', ''reject''])"
  by code_simp

lemma stopping_run:
  "summary (processStudent (recording stopping) ''S1'' ''Asha''
              ([], new_scheduler\<lparr>isRunning := True\<rparr>)) =
   Some ((3, 0, 2, 0, 0, ''completed''), 2, [StopDelivered, Slept 500],
         [Some ''reject'', Some ''reject'', None], [''reject'', ''reject''])"
  by code_simp

lemma summaryD:
  assumes "summary r = Some ((t, a, rj, sk, er, stat), n, evs, all, docs)"
  shows "\<exists>sr tr st. r = Some (Inr sr, (tr, st)) \<and> totalDocs sr = t \<and> approved sr = a \<and>
           rejected sr = rj \<and> student_result.skipped sr = sk \<and> student_result.errors sr = er \<and>
           student_result.status sr = stat \<and> length (filter is_verified tr) = n \<and>
           map all_doc_entry.ai_status (allDocuments sr) = all \<and>
           map doc_result.ai_status (documents sr) = docs"
  using assms by (auto simp: summary_def split: option.splits prod.splits sum.splits)

text \<open>
  C2 (as amended). With a valid configuration, \<open>processStudent\<close> returns a finalized
  student result (status no longer \<open>processing\<close>) whose counters satisfy
  \<open>approved + rejected + errors + skipped \<le> totalDocs\<close>, with equality whenever the stop
  flag is not raised in the state it leaves. A stop seen at a chunk boundary leaves the
  items of the chunks not started in \<open>totalDocs\<close> but in no counter.
\<close>

theorem counters_sum_to_total_unless_stopped:
  assumes "1 \<le> concurrency (config st)"
    and "1 \<le> retryAttempts (config st)"
  shows "\<exists>sr w' st'.
           processStudent env a n (w, st) = Some (Inr sr, (w', st')) \<and>
           student_result.status sr \<noteq> ''processing'' \<and>
           approved sr + rejected sr + student_result.errors sr + student_result.skipped sr
             \<le> totalDocs sr \<and>
           (\<not> shouldStop st' \<longrightarrow>
              approved sr + rejected sr + student_result.errors sr + student_result.skipped sr
                = totalDocs sr)"
proof -
  from processStudent_rule[of env "\<lambda>w. True" w st a n, OF _ _ _ assms]
  obtain sr w' st' where ps: "processStudent env a n (w, st) = Some (Inr sr, (w', st'))"
      "student_result.status sr \<in> {''skipped'', ''partial'', ''completed'', ''error''}"
      "counted sr \<le> totalDocs sr" "\<not> shouldStop st' \<longrightarrow> counted sr = totalDocs sr"
    by auto
  have "student_result.status sr \<noteq> ''processing''" using ps(2) by auto
  then show ?thesis using ps by (auto simp: counted_def)
qed

theorem counters_sum_to_total_unless_stopped_witness:
  "\<exists>sr w' st'.
     processStudent (recording scenario) ''S1'' ''Asha'' ([], new_scheduler) =
       Some (Inr sr, (w', st')) \<and>
     student_result.status sr \<noteq> ''processing'' \<and>
     approved sr + rejected sr + student_result.errors sr + student_result.skipped sr
       \<le> totalDocs sr \<and>
     (\<not> shouldStop st' \<longrightarrow>
        approved sr + rejected sr + student_result.errors sr + student_result.skipped sr
          = totalDocs sr)"
proof -
  have "1 \<le> concurrency (config new_scheduler)" "1 \<le> retryAttempts (config new_scheduler)"
    by (simp_all add: new_scheduler_def)
  then show ?thesis by (rule counters_sum_to_total_unless_stopped)
qed

text \<open>
  C2 as stated fails when a stop arrives during the first of two chunks: three candidate
  items, two of them counted, and the result is finalized as \<open>completed\<close>.
\<close>

theorem counters_fall_short_of_total_when_stopped:
  "map_option student_result.status
     (finalized (processStudent (recording stopping) ''S1'' ''Asha''
                   ([], new_scheduler\<lparr>isRunning := True\<rparr>))) = Some ''completed'' \<and>
   map_option totalDocs
     (finalized (processStudent (recording stopping) ''S1'' ''Asha''
                   ([], new_scheduler\<lparr>isRunning := True\<rparr>))) = Some 3 \<and>
   map_option counted
     (finalized (processStudent (recording stopping) ''S1'' ''Asha''
                   ([], new_scheduler\<lparr>isRunning := True\<rparr>))) = Some 2 \<and>
   map_option counted
     (finalized (processStudent (recording stopping) ''S1'' ''Asha''
                   ([], new_scheduler\<lparr>isRunning := True\<rparr>))) \<noteq>
   map_option totalDocs
     (finalized (processStudent (recording stopping) ''S1'' ''Asha''
                   ([], new_scheduler\<lparr>isRunning := True\<rparr>)))"
  using summaryD[OF stopping_run] by (auto simp: finalized_def counted_def)

text \<open>
  C1 (as amended). In the scenario (concurrency 2, three attempts; item \<open>A\<close> fails twice
  with a transient error and is then approved, item \<open>B\<close> is rejected at once, item \<open>C\<close> has
  no file) the student result has \<open>totalDocs = 2\<close>, \<open>approved = 1\<close>, \<open>rejected = 1\<close>,
  \<open>skipped = 0\<close>, \<open>errors = 0\<close> and status \<open>completed\<close>, after four backend calls.
\<close>

theorem scenario_result:
  "concurrency (config new_scheduler) = 2 \<and> retryAttempts (config new_scheduler) = 3 \<and>
   has_file_url itemA \<and> has_file_url itemB \<and> \<not> has_file_url itemC \<and>
   (\<exists>sr tr st. processStudent (recording scenario) ''S1'' ''Asha'' ([], new_scheduler) =
                  Some (Inr sr, (tr, st)) \<and>
                totalDocs sr = 2 \<and> approved sr = 1 \<and> rejected sr = 1 \<and>
                student_result.skipped sr = 0 \<and> student_result.errors sr = 0 \<and>
                student_result.status sr = ''completed'' \<and>
                length (filter is_verified tr) = 4)"
proof -
  have "has_file_url itemA" "has_file_url itemB" "\<not> has_file_url itemC"
    by (simp_all add: has_file_url_def itemA_def itemB_def itemC_def item_def truthy_def trim_def
          is_space_def)
  moreover have "concurrency (config new_scheduler) = 2" "retryAttempts (config new_scheduler) = 3"
    by (simp_all add: new_scheduler_def)
  moreover have "\<exists>sr tr st. processStudent (recording scenario) ''S1'' ''Asha'' ([], new_scheduler) =
                  Some (Inr sr, (tr, st)) \<and>
                totalDocs sr = 2 \<and> approved sr = 1 \<and> rejected sr = 1 \<and>
                student_result.skipped sr = 0 \<and> student_result.errors sr = 0 \<and>
                student_result.status sr = ''completed'' \<and>
                length (filter is_verified tr) = 4"
    using summaryD[OF scenario_run] by blast
  ultimately show ?thesis by blast
qed

text \<open>
  C1 as stated expects \<open>skipped = 1\<close> for item \<open>C\<close>; the counter is not \<open>1\<close>.
\<close>

theorem scenario_skipped_is_zero_not_one:
  "map_option student_result.skipped
     (finalized (processStudent (recording scenario) ''S1'' ''Asha'' ([], new_scheduler))) = Some 0 \<and>
   map_option student_result.skipped
     (finalized (processStudent (recording scenario) ''S1'' ''Asha'' ([], new_scheduler))) \<noteq> Some 1"
  using summaryD[OF scenario_run] by (auto simp: finalized_def)

lemma find_last:
  "\<forall>h \<in> set xs. \<not> P h \<Longrightarrow> P y \<Longrightarrow> find P (xs @ [y]) = Some y"
  by (induction xs) simp_all





lemma extends_by_refl [simp]: "extends_by P tr tr"
  by (simp add: extends_by_def)

lemma extends_by_snoc: "extends_by P tr tr' \<Longrightarrow> P e \<Longrightarrow> extends_by P tr (tr' @ [e])"
  by (auto simp: extends_by_def)

lemma extends_by_append:
  "extends_by P tr tr' \<Longrightarrow> \<forall>e \<in> set es. P e \<Longrightarrow> extends_by P tr (tr' @ es)"
  by (auto simp: extends_by_def)

lemma preserved_recording:
  assumes "\<And>ms. P (Slept ms)" "P CronStopped" "P StopDelivered"
    "\<And>a. P (ListedDocuments a)" "\<And>a us. P (UpdatedStatus a us)"
  shows "preserved (recording sc) (extends_by P tr)"
  using assms by (simp add: preserved_def extends_by_snoc)

lemma serves_recording:
  assumes "d \<in> set docs"
  shows "serves (recording sc) (extends_by (backend_call_for docs) tr) d"
proof -
  have "extends_by (backend_call_for docs) tr (snd (downloadAndVerify (recording sc) d url w))"
    if "doc.file_url d = Some url" "has_file_url d" "extends_by (backend_call_for docs) tr w" for url w
  proof -
    have dl: "backend_call_for docs (Downloaded url)"
      using assms that(1,2) by (auto simp: backend_call_for_def)
    have vf: "backend_call_for docs (Verified b
            \<lparr>descriptor.filename = doc.filename d, descriptor.contentType = c,
             descriptor.document_label = doc.document_label d,
             descriptor.document_type_name = doc.document_type_name d,
             descriptor.document_description = doc.document_description d\<rparr>)" for b c
      using assms that(2) by (auto simp: backend_call_for_def described_def)
    show ?thesis
    proof (cases "download_reply sc w url")
      case (Inl e)
      then show ?thesis using that(3) dl by (simp add: downloadAndVerify_def extends_by_snoc)
    next
      case (Inr x)
      then show ?thesis using that(3) dl vf
        by (simp add: downloadAndVerify_def extends_by_append)
    qed
  qed
  then show ?thesis by (simp add: serves_def)
qed

lemma grown_refl [simp]: "grown docs sr sr"
  by (simp add: grown_def)

lemma grown_trans: "grown docs a b \<Longrightarrow> grown docs b c \<Longrightarrow> grown docs a c"
  by (auto simp: grown_def)

lemma update_first_is_uploaded:
  assumes "\<And>e. is_uploaded (f e) = is_uploaded e"
  shows "map is_uploaded (update_first p f xs) = map is_uploaded xs"
  using assms by (induction xs) simp_all

lemma docResult_fields [simp]:
  "doc_result.file_url (docResult d s c r i x) = doc.file_url d"
  "doc_result.document_type_id (docResult d s c r i x) = doc.document_type_id d"
  by (simp_all add: docResult_def)

lemma mergeResult_grown:
  assumes "d \<in> set docs" "has_file_url d"
  shows "grown docs (fst (fst acc)) (fst (fst (mergeResult env a d r acc)))"
proof -
  obtain sr ups w st where acc: "acc = ((sr, ups), (w, st))" by (cases acc) auto
  have one: "\<exists>d' \<in> set docs. has_file_url d' \<and> doc.file_url d = doc.file_url d' \<and>
                 doc.document_type_id d = doc.document_type_id d'"
    using assms by auto
  show ?thesis unfolding acc
    using one
    by (cases r) (simp_all add: mergeResult_def Let_def grown_def update_first_is_uploaded)
qed

lemma merge_fold_grown:
  "\<forall>p \<in> set ps. fst p \<in> set docs \<and> has_file_url (fst p) \<Longrightarrow>
   grown docs (fst (fst acc))
     (fst (fst (foldl (\<lambda>acc (d, r). mergeResult env a d r acc) acc ps)))"
proof (induction ps arbitrary: acc)
  case Nil
  then show ?case by simp
next
  case (Cons p ps)
  obtain d r where p: "p = (d, r)" by (cases p)
  have "grown docs (fst (fst acc)) (fst (fst (mergeResult env a d r acc)))"
    using Cons.prems p by (intro mergeResult_grown) simp_all
  moreover have "grown docs (fst (fst (mergeResult env a d r acc)))
     (fst (fst (foldl (\<lambda>acc (d, r). mergeResult env a d r acc) (mergeResult env a d r acc) ps)))"
    using Cons.IH[of "mergeResult env a d r acc"] Cons.prems by simp
  ultimately show ?case using p by (auto intro: grown_trans)
qed

lemma mergeChunk_grown:
  assumes "\<forall>d \<in> set chunk. d \<in> set docs \<and> has_file_url d"
  shows "grown docs (fst (fst acc)) (fst (fst (mergeChunk env a chunk results acc)))"
  unfolding mergeChunk_def
  using assms by (intro merge_fold_grown) (auto dest: set_zip_leftD)

lemma processChunks_grown:
  "\<forall>d \<in> set (concat chunks). d \<in> set docs \<and> has_file_url d \<Longrightarrow>
   grown docs (fst (fst acc)) (fst (fst (processChunks env a chunks acc)))"
proof (induction chunks arbitrary: acc)
  case Nil
  then show ?case by simp
next
  case (Cons chunk rest)
  obtain res s where acc: "acc = (res, s)" by (cases acc)
  show ?case
  proof (cases "shouldStop (snd s)")
    case True
    then show ?thesis using acc by simp
  next
    case False
    obtain results s1 where al: "allSettled env chunk s = (results, s1)"
      by (cases "allSettled env chunk s")
    obtain res2 s2 where mc: "mergeChunk env a chunk results (res, resume env s1) = (res2, s2)"
      by (cases "mergeChunk env a chunk results (res, resume env s1)")
    have g1: "grown docs (fst res) (fst res2)"
      using mergeChunk_grown[of chunk docs "(res, resume env s1)" env a results] Cons.prems mc
      by simp
    define s3 where "s3 = (if rest \<noteq> []
                       then resume env (sleep env (delayBetweenDocsMs (config (snd s2))) (fst s2), snd s2)
                       else s2)"
    have step: "processChunks env a (chunk # rest) acc = processChunks env a rest (res2, s3)"
      using acc False al mc by (simp add: s3_def)
    have "grown docs (fst res2) (fst (fst (processChunks env a rest (res2, s3))))"
      using Cons.IH[of "(res2, s3)"] Cons.prems by simp
    then show ?thesis unfolding step using g1 acc by (auto intro: grown_trans)
  qed
qed

lemma processDocuments_documents:
  assumes "processDocuments env a sr allDocs (w, st) = Some (t, s')"
    and conc: "1 \<le> concurrency (config st)"
  shows "grown allDocs (sr\<lparr>allDocuments := map allDocEntry allDocs\<rparr>) (result_of t) \<and>
         totalDocs (result_of t) \<le> length (filter has_file_url allDocs)"
proof -
  define up where "up = (if skipAlreadyVerified (config st)
                          then filter (\<lambda>d. doc.verify_status d \<noteq> ''2'') (filter has_file_url allDocs)
                          else filter has_file_url allDocs)"
  define sr3 where "sr3 = sr\<lparr>allDocuments := map allDocEntry allDocs,
      uploaded := length (filter has_file_url allDocs), totalDocs := length up\<rparr>"
  have pd: "processDocuments env a sr allDocs (w, st) =
     (if length up = 0 then
        Some (Returned (sr3\<lparr>student_result.status := ''skipped'',
                         student_result.endTime := Some (now env w)\<rparr>),
             setStudentResult a (sr3\<lparr>student_result.status := ''skipped'',
                         student_result.endTime := Some (now env w)\<rparr>)
               (log env ''info'' (''Student '' @ a @ '': No documents to verify'') None (w, st)))
      else
        (case chunkArray up (concurrency (config st)) of
           None \<Rightarrow> None
         | Some chunks \<Rightarrow>
             (case processChunks env a chunks ((sr3, []), (w, st)) of
                ((sr5, statusUpdates), s1) \<Rightarrow>
                  (case postStatusUpdates env a statusUpdates s1 of
                     (Some err, s2) \<Rightarrow> Some (Threw err sr5, s2)
                   | (None, s2) \<Rightarrow>
                       Some (Finished
                               (sr5\<lparr>student_result.status :=
                                      (if student_result.errors sr5 > 0 then ''partial''
                                       else ''completed'')\<rparr>),
                             s2)))))"
    unfolding processDocuments_def Let_def sr3_def up_def fst_conv snd_conv ..
  have g3: "grown allDocs (sr\<lparr>allDocuments := map allDocEntry allDocs\<rparr>) sr3"
    by (simp add: grown_def sr3_def)
  have uple: "length up \<le> length (filter has_file_url allDocs)"
    unfolding up_def by (simp del: filter_filter)
  show ?thesis
  proof (cases "length up = 0")
    case True
    then have "t = Returned (sr3\<lparr>student_result.status := ''skipped'',
                         student_result.endTime := Some (now env w)\<rparr>)"
      using assms(1) pd by simp
    then show ?thesis using g3 uple by (simp add: result_of_def grown_def sr3_def)
  next
    case False
    obtain chunks where ch: "chunkArray up (concurrency (config st)) = Some chunks" "concat chunks = up"
      using chunkArray_returns[OF conc, of up] by blast
    obtain sr5 ups s1 where pc: "processChunks env a chunks ((sr3, []), (w, st)) = ((sr5, ups), s1)"
      by (cases "processChunks env a chunks ((sr3, []), (w, st))") auto
    have "\<forall>d \<in> set (concat chunks). d \<in> set allDocs \<and> has_file_url d"
      using ch(2) by (auto simp: up_def split: if_splits)
    from processChunks_grown[OF this, of "((sr3, []), (w, st))" env a] pc
    have g5: "grown allDocs sr3 sr5" by simp
    have "totalDocs (fst (fst (processChunks env a chunks ((sr3, []), (w, st))))) =
          totalDocs (fst (fst ((sr3, []), (w, st))))"
      using processChunks_rule[of env "\<lambda>w. True" chunks "((sr3, []), (w, st))" a] by simp
    then have t5: "totalDocs sr5 = length up" using pc by (simp add: sr3_def)
    have g: "grown allDocs (sr\<lparr>allDocuments := map allDocEntry allDocs\<rparr>) sr5"
      using g3 g5 by (rule grown_trans)
    obtain e s2 where ps: "postStatusUpdates env a ups s1 = (e, s2)"
      by (cases "postStatusUpdates env a ups s1")
    have "result_of t = sr5 \<or>
          result_of t = sr5\<lparr>student_result.status :=
                (if student_result.errors sr5 > 0 then ''partial'' else ''completed'')\<rparr>"
      using assms(1) pd False ch(1) pc ps by (cases e) (auto simp: result_of_def)
    then show ?thesis using g t5 uple by (auto simp: grown_def)
  qed
qed

lemma verifyDocument_without_file:
  assumes "\<not> has_file_url d"
  shows "verifyDocument env d s =
           (Inr notUploaded,
            log env ''info'' (''Skipping '' @ doc.document_label d @ '': No file uploaded'') None s)"
  using assms by (cases "doc.file_url d") (simp_all add: verifyDocument_def)



end
